theory Spec2Isabelle
  imports Main "HOL-Library.Char_ord" "HOL-Library.List_Lexorder" "HOL-Library.Sublist"
    "HOL-Library.AList"
begin

section \<open>Strings and bytes\<close>

text \<open>
  A Go string is a sequence of bytes and so is a \<open>[]byte\<close>; both are modelled as
  \<open>char list\<close> (an Isabelle \<open>char\<close> is one byte), and the conversions
  \<open>string(data)\<close> and \<open>[]byte(s)\<close> are the identity.
\<close>

type_synonym bytes = "char list"

text \<open>
  \<open>strings.ToLower\<close> and \<open>strings.TrimSpace\<close> of the standard library work on
  Unicode text (every upper case letter is mapped, every Unicode white space is trimmed).
  They are not defined here: each function below that calls them takes them as the
  parameters \<open>toLower\<close> and \<open>trimSpace\<close>, and what is proved of it holds whatever
  the two functions are, so also of the library's.

  On ASCII text the library's functions are the two defined next: A to Z are mapped to
  a to z, and tab, line feed, vertical tab, form feed, carriage return and space are
  trimmed at both ends. They stand for the parameters in the worked examples, which are
  all on ASCII text.
\<close>

definition lower_char :: "char \<Rightarrow> char" where
  "lower_char c =
     (if CHR ''A'' \<le> c \<and> c \<le> CHR ''Z'' then char_of (of_char c + (32::nat)) else c)"

definition ToLower_ascii :: "string \<Rightarrow> string" where
  "ToLower_ascii s = map lower_char s"

definition isSpace_ascii :: "char \<Rightarrow> bool" where
  "isSpace_ascii c = (c \<in> set [CHR 0x09, CHR 0x0A, CHR 0x0B, CHR 0x0C, CHR 0x0D, CHR '' ''])"

definition TrimSpace_ascii :: "string \<Rightarrow> string" where
  "TrimSpace_ascii s = rev (dropWhile isSpace_ascii (rev (dropWhile isSpace_ascii s)))"

text \<open>\<open>strings.Contains(s, substr)\<close>: \<open>substr\<close> occurs in \<open>s\<close> as a contiguous block.\<close>

definition Contains :: "string \<Rightarrow> string \<Rightarrow> bool" where
  "Contains s substr = sublist substr s"

text \<open>\<open>strings.HasSuffix(s, suffix)\<close>.\<close>

definition HasSuffix :: "string \<Rightarrow> string \<Rightarrow> bool" where
  "HasSuffix s suf = suffix suf s"

text \<open>
  \<open>strings.Replace(s, old, "", -1)\<close> for a one-byte ASCII \<open>old\<close>: every occurrence of
  the byte is removed. (\<open>Contains\<close>, \<open>HasSuffix\<close> and \<open>Replace\<close> compare bytes, on any
  text.)
\<close>

definition Replace_all_empty :: "string \<Rightarrow> char \<Rightarrow> string" where
  "Replace_all_empty s old = filter (\<lambda>c. c \<noteq> old) s"

section \<open>Recipes (recipe/recipe.go)\<close>

text \<open>\<open>ValidCategoriesOrder\<close>: the keys of \<open>Info\<close> in order of importance.\<close>

definition ValidCategoriesOrder :: "string list" where
  "ValidCategoriesOrder =
     [''serves'', ''oven temperature'', ''ingredients'', ''preparation'', ''tips'']"

text \<open>\<open>validCategories\<close>: a Go \<open>map[string]bool\<close> used only for key membership.\<close>

definition validCategories :: "string \<rightharpoonup> bool" where
  "validCategories =
     [''oven temperature'' \<mapsto> True, ''serves'' \<mapsto> True, ''ingredients'' \<mapsto> True,
      ''preparation'' \<mapsto> True, ''tips'' \<mapsto> True]"

text \<open>
  The \<open>Recipe\<close> struct. \<open>Info\<close> is a Go map; a nil map and an empty map read alike and
  are both \<open>Map.empty\<close>. \<open>Image\<close> is \<open>None\<close> for a nil slice.
\<close>

record Recipe =
  Title :: string
  Info :: "string \<rightharpoonup> string list"
  DocxPath :: string
  ScanPaths :: "string list"
  Image :: "bytes option"

subsection \<open>The line loop of \<open>ParseFiles\<close>\<close>

text \<open>
  The loop \<open>for _, line := range lines\<close> of \<open>ParseFiles\<close> works on the recipe and the
  two local variables \<open>titleIsNext\<close> and \<open>currentGroup\<close>.
\<close>

record parse_state =
  recipe :: Recipe
  titleIsNext :: bool
  currentGroup :: string

text \<open>\<open>append(r.Info[g], line)\<close>: a missing key reads as the nil slice.\<close>

definition Info_append :: "Recipe \<Rightarrow> string \<Rightarrow> string \<Rightarrow> Recipe" where
  "Info_append r g line =
     r\<lparr>Info := (Info r)(g \<mapsto> (case Info r g of None \<Rightarrow> [] | Some ls \<Rightarrow> ls) @ [line])\<rparr>"

text \<open>One iteration of the loop body.\<close>

definition parse_line :: "(string \<Rightarrow> string) \<Rightarrow> string \<Rightarrow> parse_state \<Rightarrow> parse_state" where
  "parse_line toLower line s =
     (if Title (recipe s) = [] then
        (if titleIsNext s then s\<lparr>recipe := (recipe s)\<lparr>Title := line\<rparr>\<rparr>
         else if Contains (toLower line) ''recipe'' then s\<lparr>titleIsNext := True\<rparr>
         else s)
      else
        (let lowerLine = toLower (Replace_all_empty line CHR '':'') in
         if validCategories lowerLine \<noteq> None then s\<lparr>currentGroup := lowerLine\<rparr>
         else if currentGroup s = [] then s
         else s\<lparr>recipe := Info_append (recipe s) (currentGroup s) line\<rparr>))"

text \<open>The whole loop, from \<open>titleIsNext := false\<close> and \<open>currentGroup := ""\<close>.\<close>

definition parse_lines :: "(string \<Rightarrow> string) \<Rightarrow> string list \<Rightarrow> Recipe \<Rightarrow> Recipe" where
  "parse_lines toLower lines r =
     recipe (fold (parse_line toLower) lines
               \<lparr>recipe = r, titleIsNext = False, currentGroup = []\<rparr>)"

section \<open>The text of a document (\<open>Docx.Text\<close>)\<close>

text \<open>
  The XML decoder of the standard library is outside this development: its output is
  taken as the list of tokens it yields before \<open>decoder.Token()\<close> returns an error, and
  that error (\<open>io.EOF\<close> at the end of a well-formed stream). Only the local name of a
  start element is read by the code.
\<close>

datatype xml_token = StartElement string | EndElement string | CharData bytes | OtherToken

text \<open>
  The errors of the development: \<open>io.EOF\<close>, the package's \<open>ErrMissingDocument\<close>,
  the error of \<open>fmt.Errorf("Not a directory %s", dirPath)\<close>, a nil dereference, and one
  constructor for each kind of failure of the collaborators (archive, open, read, XML
  syntax, file system).
\<close>

datatype error =
    EOF
  | ErrMissingDocument
  | ZipError
  | OpenError
  | ReadError
  | XMLSyntaxError
  | FSError
  | NotADirectory string
  | NilDereference

text \<open>The loop of \<open>Text\<close>, with the variables \<open>outputCharData\<close> and \<open>lines\<close>.\<close>

fun Text_loop ::
  "(string \<Rightarrow> string) \<Rightarrow> (string \<Rightarrow> string) \<Rightarrow> xml_token list \<Rightarrow> bool \<Rightarrow> string list \<Rightarrow>
   string list" where
  "Text_loop toLower trimSpace [] outputCharData lines = lines"
| "Text_loop toLower trimSpace (StartElement local # ts) outputCharData lines =
     (if \<not> outputCharData \<and> toLower local = ''body''
      then Text_loop toLower trimSpace ts True lines
      else Text_loop toLower trimSpace ts outputCharData lines)"
| "Text_loop toLower trimSpace (CharData t # ts) outputCharData lines =
     (if outputCharData then
        (let str = trimSpace t in
         if str \<noteq> [] then Text_loop toLower trimSpace ts outputCharData (lines @ [str])
         else Text_loop toLower trimSpace ts outputCharData lines)
      else Text_loop toLower trimSpace ts outputCharData lines)"
| "Text_loop toLower trimSpace (_ # ts) outputCharData lines =
     Text_loop toLower trimSpace ts outputCharData lines"

text \<open>
  \<open>Text\<close> returns the lines collected so far together with the decoder's error, which
  is reset to nil when it is \<open>io.EOF\<close>.
\<close>

definition Text ::
  "(string \<Rightarrow> string) \<Rightarrow> (string \<Rightarrow> string) \<Rightarrow> xml_token list \<times> error \<Rightarrow>
   string list \<times> error option" where
  "Text toLower trimSpace d =
     (Text_loop toLower trimSpace (fst d) False [],
      if snd d = EOF then None else Some (snd d))"

section \<open>Category headers (content phase of the extractor)\<close>

text \<open>
  The key the specification describes for a line: lowercase, with one trailing colon
  stripped and every other colon kept.
\<close>

definition spec_strip_trailing_colon :: "string \<Rightarrow> string" where
  "spec_strip_trailing_colon line =
     (if line \<noteq> [] \<and> last line = CHR '':'' then butlast line else line)"

definition spec_category_key :: "(string \<Rightarrow> string) \<Rightarrow> string \<Rightarrow> string" where
  "spec_category_key toLower line = toLower (spec_strip_trailing_colon line)"

text \<open>The key the code computes: lowercase, with every colon removed.\<close>

definition category_key :: "(string \<Rightarrow> string) \<Rightarrow> string \<Rightarrow> string" where
  "category_key toLower line = toLower (Replace_all_empty line CHR '':'')"

lemma category_key_colon_free:
  "category_key toLower (xs @ CHR '':'' # ys) = category_key toLower (xs @ ys)"
  by (simp add: category_key_def Replace_all_empty_def)

lemma validCategories_dom:
  "(validCategories k = None) = (k \<notin> set ValidCategoriesOrder)"
  by (auto simp: validCategories_def ValidCategoriesOrder_def)

text \<open>
  C3, as the code has it, for the library's \<open>strings.ToLower\<close> as for any other
  function \<open>toLower\<close>. In the content phase (the title is set) a line opens a category
  exactly when its lowercased form with every colon removed, wherever the colon stands,
  is one of the five category names: then the current category becomes that name and the
  recipe is unchanged (the line is not stored). Any other line leaves the current category
  alone; it is appended to the current category's lines, or changes nothing when no
  category is current. A colon at any position of the line does not change its key.
\<close>

theorem content_line_opens_category:
  "(Title (recipe s) \<noteq> [] \<and> category_key toLower line \<in> set ValidCategoriesOrder \<longrightarrow>
      parse_line toLower line s = s\<lparr>currentGroup := category_key toLower line\<rparr>) \<and>
   (Title (recipe s) \<noteq> [] \<and> category_key toLower line \<notin> set ValidCategoriesOrder \<longrightarrow>
      currentGroup (parse_line toLower line s) = currentGroup s \<and>
      recipe (parse_line toLower line s) =
        (if currentGroup s = [] then recipe s
         else Info_append (recipe s) (currentGroup s) line)) \<and>
   category_key toLower (xs @ CHR '':'' # ys) = category_key toLower (xs @ ys)"
  unfolding parse_line_def Let_def category_key_def [symmetric]
  by (simp add: validCategories_dom category_key_colon_free del: not_None_eq)

definition pie :: Recipe where
  "pie = \<lparr>Title = ''Apple Pie'', Info = Map.empty, DocxPath = ''/r/pie.docx'',
          ScanPaths = [], Image = None\<rparr>"

lemma key_oven: "category_key ToLower_ascii ''Oven: Temperature'' = ''oven temperature''"
  by code_simp

lemma spec_key_oven: "spec_category_key ToLower_ascii ''Oven: Temperature'' = ''oven: temperature''"
  by code_simp

lemma key_flour: "category_key ToLower_ascii ''2 cups flour'' = ''2 cups flour''"
  by code_simp

theorem content_line_opens_category_witness:
  "Title (recipe \<lparr>recipe = pie, titleIsNext = True, currentGroup = ''ingredients''\<rparr>) \<noteq> [] \<and>
   category_key ToLower_ascii ''Oven: Temperature'' \<in> set ValidCategoriesOrder \<and>
   parse_line ToLower_ascii ''Oven: Temperature''
       \<lparr>recipe = pie, titleIsNext = True, currentGroup = ''ingredients''\<rparr>
     = \<lparr>recipe = pie, titleIsNext = True, currentGroup = ''oven temperature''\<rparr> \<and>
   category_key ToLower_ascii ''2 cups flour'' \<notin> set ValidCategoriesOrder \<and>
   recipe (parse_line ToLower_ascii ''2 cups flour''
       \<lparr>recipe = pie, titleIsNext = True, currentGroup = ''ingredients''\<rparr>)
     = Info_append pie ''ingredients'' ''2 cups flour''"
proof -
  let ?s = "\<lparr>recipe = pie, titleIsNext = True, currentGroup = ''ingredients''\<rparr>"
  have t: "Title (recipe ?s) \<noteq> []"
    by (simp add: pie_def)
  have k1: "category_key ToLower_ascii ''Oven: Temperature'' \<in> set ValidCategoriesOrder"
    unfolding key_oven by (simp add: ValidCategoriesOrder_def)
  have k2: "category_key ToLower_ascii ''2 cups flour'' \<notin> set ValidCategoriesOrder"
    unfolding key_flour by (simp add: ValidCategoriesOrder_def)
  from content_line_opens_category
         [where s = ?s and toLower = ToLower_ascii and line = "''Oven: Temperature''"] t k1
  have 1: "parse_line ToLower_ascii ''Oven: Temperature'' ?s
             = ?s\<lparr>currentGroup := category_key ToLower_ascii ''Oven: Temperature''\<rparr>"
    by blast
  from content_line_opens_category
         [where s = ?s and toLower = ToLower_ascii and line = "''2 cups flour''"] t k2
  have 2: "recipe (parse_line ToLower_ascii ''2 cups flour'' ?s)
             = Info_append pie ''ingredients'' ''2 cups flour''"
    by simp
  show ?thesis
    using t k1 k2 1 2 by (simp add: key_oven)
qed

text \<open>
  C3 as stated fails on the code: the line \<open>Oven: Temperature\<close> has its colon in the
  middle, so with only a trailing colon stripped it is not a category name; the code
  removes the colon all the same and the line opens the category \<open>oven temperature\<close>
  instead of being stored under the current category \<open>ingredients\<close>.
\<close>

theorem mid_colon_opens_category_counterexample:
  "spec_category_key ToLower_ascii ''Oven: Temperature'' \<notin> set ValidCategoriesOrder \<and>
   parse_line ToLower_ascii ''Oven: Temperature''
       \<lparr>recipe = pie, titleIsNext = True, currentGroup = ''ingredients''\<rparr>
     = \<lparr>recipe = pie, titleIsNext = True, currentGroup = ''oven temperature''\<rparr>"
proof -
  have a: "spec_category_key ToLower_ascii ''Oven: Temperature'' \<notin> set ValidCategoriesOrder"
    unfolding spec_key_oven by (simp add: ValidCategoriesOrder_def)
  have b: "validCategories ''oven temperature'' \<noteq> None"
    by (simp add: validCategories_def)
  have c: "Title pie \<noteq> []"
    by (simp add: pie_def)
  have k: "ToLower_ascii (Replace_all_empty ''Oven: Temperature'' CHR '':'') = ''oven temperature''"
    using key_oven by (simp add: category_key_def)
  show ?thesis
    using a b c by (simp add: parse_line_def k del: not_None_eq)
qed

section \<open>Title seeking (first phase of the extractor)\<close>

text \<open>The test of the title-seeking branch: the lowercased line contains \<open>recipe\<close>.\<close>

definition is_trigger :: "(string \<Rightarrow> string) \<Rightarrow> string \<Rightarrow> bool" where
  "is_trigger toLower line = Contains (toLower line) ''recipe''"

lemma seek_skip:
  "Title (recipe s) = [] \<Longrightarrow> \<not> titleIsNext s \<Longrightarrow> \<forall>l\<in>set pre. \<not> is_trigger toLower l \<Longrightarrow>
   fold (parse_line toLower) pre s = s"
  by (induction pre) (auto simp: parse_line_def is_trigger_def)

lemma content_step_titleIsNext:
  "Title (recipe s) \<noteq> [] \<Longrightarrow>
   parse_line toLower l (s\<lparr>titleIsNext := b\<rparr>) = (parse_line toLower l s)\<lparr>titleIsNext := b\<rparr> \<and>
   Title (recipe (parse_line toLower l s)) = Title (recipe s)"
  by (simp add: parse_line_def Let_def Info_append_def)

lemma content_fold_titleIsNext:
  "Title (recipe s) \<noteq> [] \<Longrightarrow>
   fold (parse_line toLower) ls (s\<lparr>titleIsNext := b\<rparr>) = (fold (parse_line toLower) ls s)\<lparr>titleIsNext := b\<rparr>"
proof (induction ls arbitrary: s)
  case Nil
  then show ?case by simp
next
  case (Cons l ls)
  from Cons.prems have 1: "parse_line toLower l (s\<lparr>titleIsNext := b\<rparr>) = (parse_line toLower l s)\<lparr>titleIsNext := b\<rparr>"
    and 2: "Title (recipe (parse_line toLower l s)) \<noteq> []"
    by (simp_all add: content_step_titleIsNext)
  show ?case using Cons.IH [OF 2] 1 by simp
qed

lemma content_fold_Title:
  "Title (recipe s) \<noteq> [] \<Longrightarrow> Title (recipe (fold (parse_line toLower) ls s)) = Title (recipe s)"
  by (induction ls arbitrary: s) (simp_all add: content_step_titleIsNext)

lemma Text_loop_nonempty:
  "[] \<notin> set acc \<Longrightarrow> [] \<notin> set (Text_loop toLower trimSpace ts b acc)"
  by (induction toLower trimSpace ts b acc rule: Text_loop.induct) (auto simp: Let_def)

lemma Text_nonempty: "Text toLower trimSpace d = (lines, e) \<Longrightarrow> [] \<notin> set lines"
  using Text_loop_nonempty [where acc = "[]" and ts = "fst d" and b = False]
  by (auto simp: Text_def)

text \<open>
  C6, for the library's \<open>strings.ToLower\<close> and \<open>strings.TrimSpace\<close> as for any
  other functions. The lines are those \<open>Text\<close> returns (none of them is empty) and the recipe
  starts with an empty title, as \<open>RecipesFromPath\<close> builds it. When the first line
  containing \<open>recipe\<close> (in lowercase) has a successor, the title is that successor and the
  result is that of the content phase run on the lines after the title alone: the lines
  before the title leave no trace. When no line but possibly the last contains
  \<open>recipe\<close>, the title stays empty and the recipe is unchanged; the loop has no error
  exit.
\<close>

theorem title_follows_first_trigger:
  assumes "Text toLower trimSpace d = (lines, e)" and "Title r = []"
  shows "(lines = pre @ trig # t # post \<and> (\<forall>l\<in>set pre. \<not> is_trigger toLower l) \<and> is_trigger toLower trig \<longrightarrow>
            Title (parse_lines toLower lines r) = t \<and>
            parse_lines toLower lines r = parse_lines toLower post (r\<lparr>Title := t\<rparr>)) \<and>
         ((\<forall>l\<in>set (butlast lines). \<not> is_trigger toLower l) \<longrightarrow>
            Title (parse_lines toLower lines r) = [] \<and> parse_lines toLower lines r = r)"
proof (intro conjI impI)
  let ?s0 = "\<lparr>recipe = r, titleIsNext = False, currentGroup = []\<rparr>"
  assume h: "lines = pre @ trig # t # post \<and> (\<forall>l\<in>set pre. \<not> is_trigger toLower l) \<and> is_trigger toLower trig"
  from Text_nonempty [OF assms(1)] h have t: "t \<noteq> []" by auto
  from h assms(2) have 1: "fold (parse_line toLower) pre ?s0 = ?s0"
    by (intro seek_skip) auto
  from h assms(2) have 2: "parse_line toLower trig ?s0 = ?s0\<lparr>titleIsNext := True\<rparr>"
    by (simp add: parse_line_def is_trigger_def)
  from assms(2) have 3: "parse_line toLower t (?s0\<lparr>titleIsNext := True\<rparr>)
       = \<lparr>recipe = r\<lparr>Title := t\<rparr>, titleIsNext = False, currentGroup = []\<rparr>\<lparr>titleIsNext := True\<rparr>"
    by (simp add: parse_line_def)
  let ?s1 = "\<lparr>recipe = r\<lparr>Title := t\<rparr>, titleIsNext = False, currentGroup = []\<rparr>"
  from t have 4: "Title (recipe ?s1) \<noteq> []" by simp
  from h have "fold (parse_line toLower) lines ?s0 = fold (parse_line toLower) post (?s1\<lparr>titleIsNext := True\<rparr>)"
    using 1 2 3 by simp
  also have "\<dots> = (fold (parse_line toLower) post ?s1)\<lparr>titleIsNext := True\<rparr>"
    by (rule content_fold_titleIsNext [OF 4])
  finally show eq: "parse_lines toLower lines r = parse_lines toLower post (r\<lparr>Title := t\<rparr>)"
    by (simp add: parse_lines_def)
  show "Title (parse_lines toLower lines r) = t"
    using eq content_fold_Title [OF 4, where ls = post and toLower = toLower]
    by (simp add: parse_lines_def)
next
  let ?s0 = "\<lparr>recipe = r, titleIsNext = False, currentGroup = []\<rparr>"
  assume h: "\<forall>l\<in>set (butlast lines). \<not> is_trigger toLower l"
  have r: "parse_lines toLower lines r = r"
  proof (cases lines rule: rev_cases)
    case Nil
    then show ?thesis by (simp add: parse_lines_def)
  next
    case (snoc pre x)
    with h assms(2) have "fold (parse_line toLower) pre ?s0 = ?s0"
      by (intro seek_skip) auto
    with snoc assms(2) show ?thesis
      by (simp add: parse_lines_def parse_line_def)
  qed
  then show "parse_lines toLower lines r = r" .
  from r assms(2) show "Title (parse_lines toLower lines r) = []" by simp
qed

definition doc0 :: "xml_token list \<times> error" where
  "doc0 =
     ([StartElement ''document'', CharData ''skipped'', StartElement ''body'',
       StartElement ''p'', CharData ''Grandmas Recipe'', EndElement ''p'',
       StartElement ''p'', CharData '' Apple Pie '', EndElement ''p'',
       StartElement ''p'', CharData ''Ingredients:'', EndElement ''p'',
       StartElement ''p'', CharData ''2 cups flour'', EndElement ''p'',
       EndElement ''body''], EOF)"

definition doc1 :: "xml_token list \<times> error" where
  "doc1 =
     ([StartElement ''body'', CharData ''Apple Pie'', CharData ''Family Recipe''], EOF)"

definition r0 :: Recipe where
  "r0 = \<lparr>Title = [], Info = Map.empty, DocxPath = ''/r/pie.docx'', ScanPaths = [],
          Image = None\<rparr>"

lemma Text_doc0:
  "Text ToLower_ascii TrimSpace_ascii doc0 = ([''Grandmas Recipe'', ''Apple Pie'', ''Ingredients:'', ''2 cups flour''], None)"
  by code_simp

lemma Text_doc1: "Text ToLower_ascii TrimSpace_ascii doc1 = ([''Apple Pie'', ''Family Recipe''], None)"
  by code_simp

lemma trigger_grandmas: "is_trigger ToLower_ascii ''Grandmas Recipe''"
  by code_simp

lemma not_trigger_pie: "\<not> is_trigger ToLower_ascii ''Apple Pie''"
  by code_simp

lemma content_of_pie:
  "Info (parse_lines ToLower_ascii [''Ingredients:'', ''2 cups flour''] (r0\<lparr>Title := ''Apple Pie''\<rparr>))
     ''ingredients'' = Some [''2 cups flour'']"
  by code_simp

theorem title_follows_first_trigger_witness:
  "Text ToLower_ascii TrimSpace_ascii doc0 = ([''Grandmas Recipe'', ''Apple Pie'', ''Ingredients:'', ''2 cups flour''], None) \<and>
   Text ToLower_ascii TrimSpace_ascii doc1 = ([''Apple Pie'', ''Family Recipe''], None) \<and>
   Title r0 = [] \<and> is_trigger ToLower_ascii ''Grandmas Recipe'' \<and> \<not> is_trigger ToLower_ascii ''Apple Pie'' \<and>
   Title (parse_lines ToLower_ascii [''Grandmas Recipe'', ''Apple Pie'', ''Ingredients:'', ''2 cups flour''] r0)
     = ''Apple Pie'' \<and>
   Info (parse_lines ToLower_ascii [''Grandmas Recipe'', ''Apple Pie'', ''Ingredients:'', ''2 cups flour''] r0)
     ''ingredients'' = Some [''2 cups flour''] \<and>
   Title (parse_lines ToLower_ascii [''Apple Pie'', ''Family Recipe''] r0) = []"
proof -
  have t: "Title r0 = []"
    by (simp add: r0_def)
  have p: "[''Grandmas Recipe'', ''Apple Pie'', ''Ingredients:'', ''2 cups flour'']
             = [] @ ''Grandmas Recipe'' # ''Apple Pie'' # [''Ingredients:'', ''2 cups flour''] \<and>
           (\<forall>l\<in>set []. \<not> is_trigger ToLower_ascii l) \<and> is_trigger ToLower_ascii ''Grandmas Recipe''"
    using trigger_grandmas by simp
  note th = title_follows_first_trigger [OF Text_doc0 t, of "[]" "''Grandmas Recipe''"
      "''Apple Pie''" "[''Ingredients:'', ''2 cups flour'']"]
  from th p
  have 1: "Title (parse_lines ToLower_ascii [''Grandmas Recipe'', ''Apple Pie'', ''Ingredients:'',
              ''2 cups flour''] r0) = ''Apple Pie''"
    by blast
  from th p
  have 2: "parse_lines ToLower_ascii [''Grandmas Recipe'', ''Apple Pie'', ''Ingredients:'',
              ''2 cups flour''] r0
            = parse_lines ToLower_ascii [''Ingredients:'', ''2 cups flour''] (r0\<lparr>Title := ''Apple Pie''\<rparr>)"
    by blast
  from title_follows_first_trigger [OF Text_doc1 t, of "[]" "[]" "[]" "[]"] not_trigger_pie t
  have 3: "Title (parse_lines ToLower_ascii [''Apple Pie'', ''Family Recipe''] r0) = []"
    by simp
  show ?thesis
    using Text_doc0 Text_doc1 t trigger_grandmas not_trigger_pie 1 3 content_of_pie [folded 2]
    by simp
qed

section \<open>The index synchronizer (\<open>NewHandler\<close>)\<close>

subsection \<open>Hashing a recipe\<close>

text \<open>
  SHA-256 itself is a parameter \<open>H\<close> of the development. A \<open>hash.Hash\<close> is the sequence
  of bytes written to it so far: \<open>io.WriteString\<close> appends, and \<open>Sum(nil)\<close> is \<open>H\<close> of
  everything written.
\<close>

definition WriteString :: "bytes \<Rightarrow> string \<Rightarrow> bytes" where
  "WriteString hasher s = hasher @ s"

text \<open>\<open>for _, line := range info { io.WriteString(hasher, line) }\<close>\<close>

fun hash_lines :: "string list \<Rightarrow> bytes \<Rightarrow> bytes" where
  "hash_lines [] hasher = hasher"
| "hash_lines (line # info) hasher = hash_lines info (WriteString hasher line)"

text \<open>\<open>for _, order := range recipe.ValidCategoriesOrder { if info, exists := ... }\<close>\<close>

fun hash_categories :: "string list \<Rightarrow> Recipe \<Rightarrow> bytes \<Rightarrow> bytes" where
  "hash_categories [] recip hasher = hasher"
| "hash_categories (order # orders) recip hasher =
     (case Info recip order of
        Some info \<Rightarrow> hash_categories orders recip (hash_lines info hasher)
      | None \<Rightarrow> hash_categories orders recip hasher)"

definition hasher_input :: "Recipe \<Rightarrow> bytes" where
  "hasher_input recip =
     hash_categories ValidCategoriesOrder recip (WriteString [] (Title recip))"

definition recipe_sha256 :: "(bytes \<Rightarrow> bytes) \<Rightarrow> Recipe \<Rightarrow> bytes" where
  "recipe_sha256 H recip = H (hasher_input recip)"

subsection \<open>The synchronization pass\<close>

text \<open>
  The search index is an external collaborator. The model records the calls made on it,
  in order; \<open>Delete\<close>'s result is dropped by the code, and the result of \<open>Index\<close> is given
  by a parameter \<open>idx\<close>: from the calls made so far, the key and the document, the error
  the engine answers (\<open>None\<close> for nil).
\<close>

datatype idx_call = IdxIndex string Recipe | IdxDelete string

text \<open>The entries the pass logs at error level.\<close>

datatype log_error = MissingTitle string | DuplicateTitle string string string

text \<open>
  \<open>itemIndex\<close> is a Go map from titles to digests, and the pass ranges over it: it is an
  association list, whose order stands for the (unspecified) iteration order; lookup is
  \<open>map_of\<close>, assignment \<open>AList.update\<close> and \<open>delete\<close> is \<open>AList.delete\<close>.
  \<open>handler.recipes\<close> is only looked up and assigned.
\<close>

record sync_state =
  recipes :: "string \<rightharpoonup> Recipe"
  itemIndex :: "(string \<times> bytes) list"
  calls :: "idx_call list"
  errors_logged :: "log_error list"

text \<open>
  The body of \<open>for _, recip := range recipeSlice\<close>. The first component of the result
  is the error \<open>NewHandler\<close> returns from inside the loop, if any; the state is the one
  reached at that point. The test \<open>!exists || !bytes.Equal(sha256sum, oldSha)\<close> fails
  exactly when the cached digest is the computed one.
\<close>

definition sync_recipe ::
  "(bytes \<Rightarrow> bytes) \<Rightarrow> (idx_call list \<Rightarrow> string \<Rightarrow> Recipe \<Rightarrow> string option) \<Rightarrow>
   Recipe \<Rightarrow> sync_state \<Rightarrow> string option \<times> sync_state" where
  "sync_recipe H idx recip st =
     (if Title recip = [] then
        (None, st\<lparr>errors_logged := errors_logged st @ [MissingTitle (DocxPath recip)]\<rparr>)
      else
        (case recipes st (Title recip) of
           Some oldRecip \<Rightarrow>
             (None, st\<lparr>errors_logged := errors_logged st @
                [DuplicateTitle (DocxPath oldRecip) (DocxPath recip) (Title recip)]\<rparr>)
         | None \<Rightarrow>
             (let st1 = st\<lparr>recipes := (recipes st)(Title recip \<mapsto> recip)\<rparr>;
                  sha256sum = recipe_sha256 H recip;
                  oldSha = map_of (itemIndex st1) (Title recip)
              in if oldSha = Some sha256sum then (None, st1)
                 else
                   (let st2 = (if oldSha = None then st1
                               else st1\<lparr>calls := calls st1 @ [IdxDelete (Title recip)]\<rparr>);
                        st3 = st2\<lparr>itemIndex :=
                                AList.update (Title recip) sha256sum (itemIndex st2)\<rparr>;
                        err = idx (calls st3) (Title recip) recip;
                        st4 = st3\<lparr>calls := calls st3 @ [IdxIndex (Title recip) recip]\<rparr>
                    in case err of
                         Some e \<Rightarrow> (Some (''Index fail: '' @ e), st4)
                       | None \<Rightarrow> (None, st4)))))"

fun sync_loop ::
  "(bytes \<Rightarrow> bytes) \<Rightarrow> (idx_call list \<Rightarrow> string \<Rightarrow> Recipe \<Rightarrow> string option) \<Rightarrow>
   Recipe list \<Rightarrow> sync_state \<Rightarrow> string option \<times> sync_state" where
  "sync_loop H idx [] st = (None, st)"
| "sync_loop H idx (recip # rest) st =
     (case sync_recipe H idx recip st of
        (Some e, st') \<Rightarrow> (Some e, st')
      | (None, st') \<Rightarrow> sync_loop H idx rest st')"

text \<open>
  \<open>for recipeTitle := range itemIndex\<close>: the keys are those of the map when the loop
  starts; the body deletes only the key it is visiting.
\<close>

fun prune_loop :: "string list \<Rightarrow> sync_state \<Rightarrow> sync_state" where
  "prune_loop [] st = st"
| "prune_loop (recipeTitle # titles) st =
     (if recipes st recipeTitle = None then
        prune_loop titles
          (st\<lparr>calls := calls st @ [IdxDelete recipeTitle],
              itemIndex := AList.delete recipeTitle (itemIndex st)\<rparr>)
      else prune_loop titles st)"

definition prune_stale :: "sync_state \<Rightarrow> sync_state" where
  "prune_stale st = prune_loop (map fst (itemIndex st)) st"

text \<open>The state the pass starts from: nothing accepted, no call made, the loaded cache.\<close>

definition start_state :: "(string \<times> bytes) list \<Rightarrow> sync_state" where
  "start_state cache =
     \<lparr>recipes = Map.empty, itemIndex = cache, calls = [], errors_logged = []\<rparr>"

text \<open>
  The pass of \<open>NewHandler\<close> from the loaded cache to the cache it is about to save:
  \<open>handler.recipes\<close> starts empty; an error of \<open>Index\<close> returns at once, before the
  pruning loop and before \<open>SaveItemIndex\<close>.
\<close>

definition synchronize ::
  "(bytes \<Rightarrow> bytes) \<Rightarrow> (idx_call list \<Rightarrow> string \<Rightarrow> Recipe \<Rightarrow> string option) \<Rightarrow>
   Recipe list \<Rightarrow> (string \<times> bytes) list \<Rightarrow> string option \<times> sync_state" where
  "synchronize H idx recipeSlice cache =
     (case sync_loop H idx recipeSlice (start_state cache) of
        (Some e, st) \<Rightarrow> (Some e, st)
      | (None, st) \<Rightarrow> (None, prune_stale st))"

subsection \<open>The digest, as the specification words it\<close>

text \<open>
  The title followed, for each category in precedence order, by every line of that
  category in stored order; a category that is absent contributes nothing.
\<close>

definition spec_category_lines :: "Recipe \<Rightarrow> string \<Rightarrow> string list" where
  "spec_category_lines recip category = (case Info recip category of None \<Rightarrow> [] | Some info \<Rightarrow> info)"

definition spec_digest_input :: "Recipe \<Rightarrow> bytes" where
  "spec_digest_input recip =
     Title recip @
     concat (concat (map (spec_category_lines recip)
       [''serves'', ''oven temperature'', ''ingredients'', ''preparation'', ''tips'']))"

lemma hash_lines_concat: "hash_lines info hasher = hasher @ concat info"
  by (induction info arbitrary: hasher) (simp_all add: WriteString_def)

lemma hash_categories_concat:
  "hash_categories orders recip hasher
     = hasher @ concat (concat (map (spec_category_lines recip) orders))"
  by (induction orders arbitrary: hasher)
     (simp_all add: hash_lines_concat spec_category_lines_def split: option.split)

lemma hasher_input_spec: "hasher_input recip = spec_digest_input recip"
  by (simp add: hasher_input_def spec_digest_input_def hash_categories_concat
      ValidCategoriesOrder_def WriteString_def)

subsection \<open>The recipes a pass accepts\<close>

text \<open>
  What one iteration does to \<open>handler.recipes\<close>: a recipe with a title not seen before
  is stored under it; an empty or an already stored title changes nothing.
\<close>

definition accept :: "Recipe \<Rightarrow> (string \<rightharpoonup> Recipe) \<Rightarrow> (string \<rightharpoonup> Recipe)" where
  "accept recip m = (if Title recip = [] then m
                     else case m (Title recip) of Some _ \<Rightarrow> m | None \<Rightarrow> m(Title recip \<mapsto> recip))"

lemma sync_recipe_recipes:
  "recipes (snd (sync_recipe H idx recip st)) = accept recip (recipes st)"
  by (simp add: sync_recipe_def accept_def Let_def split: option.split)

lemma sync_loop_recipes:
  "fst (sync_loop H idx rs st) = None \<Longrightarrow>
   recipes (snd (sync_loop H idx rs st)) = fold accept rs (recipes st)"
proof (induction rs arbitrary: st)
  case Nil
  then show ?case by simp
next
  case (Cons r rs)
  obtain e st' where s: "sync_recipe H idx r st = (e, st')" by (cases "sync_recipe H idx r st")
  with Cons.prems have e: "e = None" by (cases e) auto
  from s have "recipes st' = accept r (recipes st)" using sync_recipe_recipes [of H idx r st] by simp
  with Cons s e show ?case by simp
qed

lemma accept_keeps: "m t = Some r \<Longrightarrow> accept x m t = Some r"
  by (auto simp: accept_def split: option.split)

lemma fold_accept_keeps: "m t = Some r \<Longrightarrow> fold accept rs m t = Some r"
  by (induction rs arbitrary: m) (simp_all add: accept_keeps)

text \<open>The cache holds the digest of every accepted recipe.\<close>

definition cache_ok :: "(bytes \<Rightarrow> bytes) \<Rightarrow> (string \<rightharpoonup> Recipe) \<Rightarrow> (string \<times> bytes) list \<Rightarrow> bool" where
  "cache_ok H m c = (\<forall>t r. m t = Some r \<longrightarrow> map_of c t = Some (recipe_sha256 H r))"

lemma sync_recipe_cache_ok:
  assumes "cache_ok H (recipes st) (itemIndex st)" and "sync_recipe H idx recip st = (e, st')"
  shows "cache_ok H (recipes st') (itemIndex st')"
  using assms
  by (auto simp: sync_recipe_def cache_ok_def Let_def update_conv'
      split: if_splits option.splits)

lemma sync_loop_cache_ok:
  "cache_ok H (recipes st) (itemIndex st) \<Longrightarrow> sync_loop H idx rs st = (e, st') \<Longrightarrow>
   cache_ok H (recipes st') (itemIndex st')"
proof (induction rs arbitrary: st)
  case Nil
  then show ?case by simp
next
  case (Cons r rs)
  obtain e1 st1 where s: "sync_recipe H idx r st = (e1, st1)" by (cases "sync_recipe H idx r st")
  from sync_recipe_cache_ok [OF Cons.prems(1) s] have ok: "cache_ok H (recipes st1) (itemIndex st1)" .
  show ?case
  proof (cases e1)
    case None
    with Cons.prems(2) s have "sync_loop H idx rs st1 = (e, st')" by simp
    from Cons.IH [OF ok this] show ?thesis .
  next
    case (Some a)
    with Cons.prems(2) s ok show ?thesis by simp
  qed
qed

lemma prune_loop_recipes: "recipes (prune_loop ts st) = recipes st"
  by (induction ts arbitrary: st) simp_all

lemma prune_loop_errors: "errors_logged (prune_loop ts st) = errors_logged st"
  by (induction ts arbitrary: st) simp_all

lemma prune_loop_itemIndex:
  "itemIndex (prune_loop ts st)
     = filter (\<lambda>(t, d). \<not> (t \<in> set ts \<and> recipes st t = None)) (itemIndex st)"
proof (induction ts arbitrary: st)
  case Nil
  then show ?case by simp
next
  case (Cons t ts)
  show ?case
  proof (cases "recipes st t = None")
    case True
    have "itemIndex (prune_loop (t # ts) st)
        = filter (\<lambda>(t', d). \<not> (t' \<in> set ts \<and> recipes st t' = None)) (AList.delete t (itemIndex st))"
      using True by (simp add: Cons.IH)
    also have "\<dots> = filter (\<lambda>(t', d). \<not> (t' \<in> set (t # ts) \<and> recipes st t' = None)) (itemIndex st)"
      using True by (auto simp: AList.delete_eq intro!: filter_cong)
    finally show ?thesis .
  next
    case False
    then show ?thesis by (auto simp: Cons.IH intro!: filter_cong)
  qed
qed

lemma prune_loop_calls:
  "calls (prune_loop ts st) = calls st @ map IdxDelete (filter (\<lambda>t. recipes st t = None) ts)"
  by (induction ts arbitrary: st) simp_all

lemma map_of_filter_key:
  "map_of (filter (\<lambda>(k, v). P k) xs) k = (if P k then map_of xs k else None)"
  by (induction xs) auto

lemma prune_stale_itemIndex:
  "itemIndex (prune_stale st) = filter (\<lambda>(t, d). recipes st t \<noteq> None) (itemIndex st)"
  unfolding prune_stale_def prune_loop_itemIndex
  by (rule filter_cong) (force simp: image_iff)+

lemma prune_stale_map_of:
  "map_of (itemIndex (prune_stale st)) t
     = (if recipes st t = None then None else map_of (itemIndex st) t)"
  unfolding prune_stale_itemIndex
  using map_of_filter_key [of "\<lambda>t. recipes st t \<noteq> None" "itemIndex st" t]
  by simp

text \<open>
  The pruning loop on any state: a title keeps its cache entry exactly when it is in
  \<open>handler.recipes\<close>, every other title of the cache loses its entry and gets one
  \<open>Delete\<close> call on the index, after the calls made so far.
\<close>

lemma prune_stale_effect:
  "map_of (itemIndex (prune_stale st)) t
     = (if recipes st t = None then None else map_of (itemIndex st) t) \<and>
   itemIndex (prune_stale st) = filter (\<lambda>(t, d). recipes st t \<noteq> None) (itemIndex st) \<and>
   calls (prune_stale st)
     = calls st @ map IdxDelete (filter (\<lambda>t. recipes st t = None) (map fst (itemIndex st))) \<and>
   recipes (prune_stale st) = recipes st"
proof (intro conjI)
  show "map_of (itemIndex (prune_stale st)) t
     = (if recipes st t = None then None else map_of (itemIndex st) t)"
    by (rule prune_stale_map_of)
  show "itemIndex (prune_stale st) = filter (\<lambda>(t, d). recipes st t \<noteq> None) (itemIndex st)"
    by (rule prune_stale_itemIndex)
  show "calls (prune_stale st)
     = calls st @ map IdxDelete (filter (\<lambda>t. recipes st t = None) (map fst (itemIndex st)))"
    by (simp add: prune_stale_def prune_loop_calls)
  show "recipes (prune_stale st) = recipes st"
    by (simp add: prune_stale_def prune_loop_recipes)
qed

lemma second_run_loop:
  "cache_ok H (fold accept rs (recipes st)) (itemIndex st) \<Longrightarrow>
   \<exists>errs. sync_loop H idx rs st
     = (None, st\<lparr>recipes := fold accept rs (recipes st), errors_logged := errs\<rparr>)"
proof (induction rs arbitrary: st)
  case Nil
  show ?case by (rule exI [of _ "errors_logged st"]) simp
next
  case (Cons r rs)
  let ?m = "accept r (recipes st)"
  from Cons.prems have ok: "cache_ok H (fold accept rs ?m) (itemIndex st)" by simp
  have "\<exists>errs. sync_recipe H idx r st = (None, st\<lparr>recipes := ?m, errors_logged := errs\<rparr>)"
  proof (cases "Title r = [] \<or> recipes st (Title r) \<noteq> None")
    case True
    then show ?thesis
      by (auto simp: sync_recipe_def accept_def)
  next
    case False
    then have m: "?m = (recipes st)(Title r \<mapsto> r)" by (auto simp: accept_def)
    then have "fold accept rs ?m (Title r) = Some r"
      by (intro fold_accept_keeps) simp
    with ok have "map_of (itemIndex st) (Title r) = Some (recipe_sha256 H r)"
      by (simp add: cache_ok_def)
    with False m have "sync_recipe H idx r st
        = (None, st\<lparr>recipes := ?m, errors_logged := errors_logged st\<rparr>)"
      by (simp add: sync_recipe_def Let_def)
    then show ?thesis by blast
  qed
  then obtain errs where s: "sync_recipe H idx r st = (None, st\<lparr>recipes := ?m, errors_logged := errs\<rparr>)"
    by blast
  let ?st1 = "st\<lparr>recipes := ?m, errors_logged := errs\<rparr>"
  from ok have "cache_ok H (fold accept rs (recipes ?st1)) (itemIndex ?st1)" by simp
  from Cons.IH [OF this] obtain errs' where
    "sync_loop H idx rs ?st1 = (None, ?st1\<lparr>recipes := fold accept rs (recipes ?st1),
        errors_logged := errs'\<rparr>)"
    by blast
  with s have "sync_loop H idx (r # rs) st
      = (None, st\<lparr>recipes := fold accept (r # rs) (recipes st), errors_logged := errs'\<rparr>)"
    by simp
  then show ?case by blast
qed

lemma prune_loop_noop:
  "\<forall>t\<in>set ts. recipes st t \<noteq> None \<Longrightarrow> prune_loop ts st = st"
  by (induction ts) auto

text \<open>
  The pass alone repeats nothing: when a first pass over the recipes runs to the end and
  leaves the cache of \<open>st1\<close>, a second pass over the same recipes that is handed a
  cache with the same entries (in whatever iteration order) returns no error, makes no
  call on the index and leaves the cache as it got it. (The program hands the cache over
  through the file of \<open>SaveItemIndex\<close> and \<open>GetItemIndex\<close>; see the last section.)
\<close>

lemma second_run_makes_no_index_call:
  assumes "synchronize H idx rs c0 = (None, st1)" and "map_of c1 = map_of (itemIndex st1)"
  shows "fst (synchronize H idx' rs c1) = None \<and>
         calls (snd (synchronize H idx' rs c1)) = [] \<and>
         itemIndex (snd (synchronize H idx' rs c1)) = c1"
proof -
  let ?st0 = "\<lparr>recipes = Map.empty, itemIndex = c0, calls = [], errors_logged = []\<rparr>"
  let ?A = "fold accept rs Map.empty"
  obtain e st where l: "sync_loop H idx rs ?st0 = (e, st)" by (cases "sync_loop H idx rs ?st0")
  with assms(1) have e: "e = None" and st1: "st1 = prune_stale st"
    by (auto simp: synchronize_def start_state_def split: option.splits)
  from l e have rec: "recipes st = ?A"
    using sync_loop_recipes [of H idx rs ?st0] by simp
  have "cache_ok H (recipes ?st0) (itemIndex ?st0)" by (simp add: cache_ok_def)
  from sync_loop_cache_ok [OF this l] rec have ok: "cache_ok H ?A (itemIndex st)" by simp
  have m1: "map_of c1 t = (if ?A t = None then None else map_of (itemIndex st) t)" for t
    using prune_stale_map_of [of st t] rec by (simp add: assms(2) st1)
  from ok m1 have ok1: "cache_ok H ?A c1" by (simp add: cache_ok_def)
  let ?st0' = "\<lparr>recipes = Map.empty, itemIndex = c1, calls = [], errors_logged = []\<rparr>"
  from ok1 have "cache_ok H (fold accept rs (recipes ?st0')) (itemIndex ?st0')" by simp
  from second_run_loop [OF this, of idx']
  obtain errs where l2: "sync_loop H idx' rs ?st0' = (None, ?st0'\<lparr>recipes := ?A, errors_logged := errs\<rparr>)"
    by auto
  let ?st2 = "?st0'\<lparr>recipes := ?A, errors_logged := errs\<rparr>"
  have "\<forall>t\<in>set (map fst c1). recipes ?st2 t \<noteq> None"
  proof
    fix t assume "t \<in> set (map fst c1)"
    then have "map_of c1 t \<noteq> None" by (simp add: map_of_eq_None_iff)
    with m1 [of t] show "recipes ?st2 t \<noteq> None" by (auto split: if_splits)
  qed
  then have "prune_stale ?st2 = ?st2"
    unfolding prune_stale_def by (simp add: prune_loop_noop)
  with l2 show ?thesis by (simp add: synchronize_def start_state_def)
qed

subsection \<open>Worked data\<close>

text \<open>
  A stand-in for the hash function and two search engines for the worked examples: one
  that accepts every document and one that rejects a given key.
\<close>

definition plain_digest :: "bytes \<Rightarrow> bytes" where "plain_digest b = b"
definition accept_all :: "idx_call list \<Rightarrow> string \<Rightarrow> Recipe \<Rightarrow> string option" where
  "accept_all cs key doc = None"
definition reject_key :: "string \<Rightarrow> idx_call list \<Rightarrow> string \<Rightarrow> Recipe \<Rightarrow> string option" where
  "reject_key k cs key doc = (if key = k then Some ''rejected'' else None)"
definition pie_flour :: Recipe where
  "pie_flour = pie\<lparr>Info := [''ingredients'' \<mapsto> [''2 cups flour'']]\<rparr>"
definition pie_copy :: Recipe where
  "pie_copy = pie\<lparr>DocxPath := ''/r/copy/pie.docx''\<rparr>"
definition cake :: Recipe where
  "cake = \<lparr>Title = ''Cake'', Info = [''serves'' \<mapsto> [''4''], ''tips'' \<mapsto> [''cool'', ''slice'']],
     DocxPath = ''/r/cake.docx'', ScanPaths = [], Image = None\<rparr>"

lemma spec_digest_input_cake: "spec_digest_input cake = ''Cake4coolslice''"
  by (simp add: spec_digest_input_def cake_def spec_category_lines_def)

lemma run1: "synchronize plain_digest accept_all [pie_flour, r0, cake, pie_copy] [(''Old'', ''x''), (''Cake'', ''y'')]
   = (None, \<lparr>recipes = [''Apple Pie'' \<mapsto> pie_flour, ''Cake'' \<mapsto> cake],
       itemIndex = [(''Cake'', ''Cake4coolslice''), (''Apple Pie'', ''Apple Pie2 cups flour'')],
       calls = [IdxIndex ''Apple Pie'' pie_flour, IdxDelete ''Cake'', IdxIndex ''Cake'' cake, IdxDelete ''Old''],
       errors_logged = [MissingTitle ''/r/pie.docx'', DuplicateTitle ''/r/pie.docx'' ''/r/copy/pie.docx'' ''Apple Pie'']\<rparr>)"
  by (simp add: synchronize_def start_state_def sync_recipe_def recipe_sha256_def hasher_input_def
      ValidCategoriesOrder_def WriteString_def plain_digest_def accept_all_def prune_stale_def
      pie_flour_def pie_def r0_def cake_def pie_copy_def Let_def)

text \<open>
  C7. The digest the pass computes for a recipe is the hash of the title followed by the
  lines of the present categories, in precedence order and stored order; for a recipe
  with a non-empty title that the pass accepts, this is the digest found in the cache
  after its iteration. Two recipes whose concatenations differ give the hash different
  inputs.
\<close>

theorem digest_is_hash_of_concatenation:
  "recipe_sha256 H recip = H (spec_digest_input recip) \<and>
   (Title recip \<noteq> [] \<and> recipes st (Title recip) = None \<longrightarrow>
      map_of (itemIndex (snd (sync_recipe H idx recip st))) (Title recip)
        = Some (H (spec_digest_input recip))) \<and>
   (spec_digest_input recip \<noteq> spec_digest_input recip' \<longrightarrow>
      hasher_input recip \<noteq> hasher_input recip')"
  by (simp add: recipe_sha256_def hasher_input_spec sync_recipe_def Let_def update_conv'
      split: option.split)

subsection \<open>Facts about the recipe loop\<close>

lemma sync_loop_append:
  "sync_loop H idx (xs @ ys) st =
     (case sync_loop H idx xs st of
        (Some e, st') \<Rightarrow> (Some e, st')
      | (None, st') \<Rightarrow> sync_loop H idx ys st')"
  by (induction xs arbitrary: st) (auto split: prod.splits option.splits)

lemma sync_recipe_calls:
  "sync_recipe H idx r st = (e, st') \<Longrightarrow> IdxIndex t x \<in> set (calls st') \<Longrightarrow>
   IdxIndex t x \<in> set (calls st) \<or> (t \<noteq> [] \<and> t = Title r \<and> x = r \<and> recipes st t = None)"
  by (auto simp: sync_recipe_def Let_def split: if_splits option.splits)

lemma sync_recipe_errors_mono:
  "sync_recipe H idx r st = (e, st') \<Longrightarrow> set (errors_logged st) \<subseteq> set (errors_logged st')"
  by (auto simp: sync_recipe_def Let_def split: if_splits option.splits)

lemma sync_loop_errors_mono:
  "sync_loop H idx rs st = (e, st') \<Longrightarrow> set (errors_logged st) \<subseteq> set (errors_logged st')"
proof (induction rs arbitrary: st)
  case Nil
  then show ?case by simp
next
  case (Cons r rs)
  obtain e1 st1 where s: "sync_recipe H idx r st = (e1, st1)" by (cases "sync_recipe H idx r st")
  note m = sync_recipe_errors_mono [OF s]
  show ?case
  proof (cases e1)
    case None
    with Cons.prems s have "sync_loop H idx rs st1 = (e, st')" by simp
    from Cons.IH [OF this] m show ?thesis by blast
  next
    case (Some a)
    with Cons.prems s m show ?thesis by simp
  qed
qed

lemma sync_recipe_recipes_mono:
  "sync_recipe H idx r st = (e, st') \<Longrightarrow> recipes st t = Some x \<Longrightarrow> recipes st' t = Some x"
  using sync_recipe_recipes [of H idx r st] by (simp add: accept_keeps)

lemma sync_loop_recipes_mono:
  "sync_loop H idx rs st = (e, st') \<Longrightarrow> recipes st t = Some x \<Longrightarrow> recipes st' t = Some x"
proof (induction rs arbitrary: st)
  case Nil
  then show ?case by simp
next
  case (Cons r rs)
  obtain e1 st1 where s: "sync_recipe H idx r st = (e1, st1)" by (cases "sync_recipe H idx r st")
  note m = sync_recipe_recipes_mono [OF s Cons.prems(2)]
  show ?case
  proof (cases e1)
    case None
    with Cons.prems s have "sync_loop H idx rs st1 = (e, st')" by simp
    from Cons.IH [OF this m] show ?thesis .
  next
    case (Some a)
    with Cons.prems s m show ?thesis by simp
  qed
qed

lemma fold_accept_find:
  "fold accept rs m t =
     (case m t of Some r \<Rightarrow> Some r
      | None \<Rightarrow> if t = [] then None else find (\<lambda>x. Title x = t) rs)"
proof (induction rs arbitrary: m)
  case Nil
  then show ?case by (simp split: option.split)
next
  case (Cons r rs)
  have "fold accept (r # rs) m t = fold accept rs (accept r m) t"
    by simp
  also have "\<dots> = (case accept r m t of Some r \<Rightarrow> Some r
      | None \<Rightarrow> if t = [] then None else find (\<lambda>x. Title x = t) rs)"
    by (rule Cons.IH)
  also have "\<dots> = (case m t of Some r \<Rightarrow> Some r
      | None \<Rightarrow> if t = [] then None else find (\<lambda>x. Title x = t) (r # rs))"
    by (auto simp: accept_def split: option.splits)
  finally show ?case .
qed

lemma sync_loop_indexed_first:
  "sync_loop H idx rs st = (e, st') \<Longrightarrow> IdxIndex t x \<in> set (calls st') \<Longrightarrow>
   IdxIndex t x \<in> set (calls st) \<or>
   (t \<noteq> [] \<and> Title x = t \<and> recipes st t = None \<and> find (\<lambda>y. Title y = t) rs = Some x)"
proof (induction rs arbitrary: st)
  case Nil
  then show ?case by simp
next
  case (Cons r rs)
  obtain e1 st1 where s: "sync_recipe H idx r st = (e1, st1)" by (cases "sync_recipe H idx r st")
  have rec: "recipes st1 = accept r (recipes st)"
    using sync_recipe_recipes [of H idx r st] s by simp
  show ?case
  proof (cases e1)
    case (Some a)
    with Cons.prems s have "st' = st1" by simp
    with Cons.prems(2) sync_recipe_calls [OF s, of t x] show ?thesis by auto
  next
    case None
    with Cons.prems s have l: "sync_loop H idx rs st1 = (e, st')" by simp
    from Cons.IH [OF l Cons.prems(2)]
    have "IdxIndex t x \<in> set (calls st1) \<or>
      (t \<noteq> [] \<and> Title x = t \<and> recipes st1 t = None \<and> find (\<lambda>y. Title y = t) rs = Some x)" .
    then show ?thesis
    proof (elim disjE conjE)
      assume "IdxIndex t x \<in> set (calls st1)"
      with sync_recipe_calls [OF s, of t x] show ?thesis by auto
    next
      assume 2: "t \<noteq> []" "Title x = t" "recipes st1 t = None"
        "find (\<lambda>y. Title y = t) rs = Some x"
      from 2(3) rec have "recipes st t = None \<and> Title r \<noteq> t"
        using 2(1) by (auto simp: accept_def split: if_splits option.splits)
      with 2 show ?thesis by simp
    qed
  qed
qed

lemma prune_loop_IdxIndex:
  "IdxIndex t x \<in> set (calls (prune_loop ts st)) = (IdxIndex t x \<in> set (calls st))"
  by (auto simp: prune_loop_calls)

lemma synchronize_loop:
  assumes "synchronize H idx rs c = (e, st)"
  shows "\<exists>st'. sync_loop H idx rs (start_state c) = (e, st') \<and> recipes st = recipes st' \<and>
           errors_logged st = errors_logged st' \<and>
           (\<forall>t x. (IdxIndex t x \<in> set (calls st)) = (IdxIndex t x \<in> set (calls st')))"
proof -
  obtain e' st' where l: "sync_loop H idx rs (start_state c) = (e', st')"
    by (cases "sync_loop H idx rs (start_state c)")
  show ?thesis
  proof (cases e')
    case None
    with l assms have "e = None" "st = prune_stale st'"
      by (simp_all add: synchronize_def start_state_def)
    with l None show ?thesis
      by (simp add: prune_stale_def prune_loop_recipes prune_loop_errors prune_loop_IdxIndex)
  next
    case (Some a)
    with l assms show ?thesis
      by (simp add: synchronize_def start_state_def)
  qed
qed

lemma find_append_Some: "find P xs = Some x \<Longrightarrow> find P (xs @ ys) = Some x"
  by (induction xs) (auto split: if_splits)

lemma reached_duplicate:
  assumes l: "sync_loop H idx (pre @ r # post) (start_state c) = (e, st)"
    and pre: "fst (sync_loop H idx pre (start_state c)) = None"
    and t: "Title r \<noteq> []" and f: "find (\<lambda>y. Title y = Title r) pre = Some old"
  shows "recipes st (Title r) = Some old \<and>
         DuplicateTitle (DocxPath old) (DocxPath r) (Title r) \<in> set (errors_logged st)"
proof -
  obtain st1 where p: "sync_loop H idx pre (start_state c) = (None, st1)"
    using pre by (cases "sync_loop H idx pre (start_state c)") auto
  have "recipes st1 = fold accept pre Map.empty"
    using sync_loop_recipes [of H idx pre "start_state c"] p by (simp add: start_state_def)
  with t f have old: "recipes st1 (Title r) = Some old"
    by (simp add: fold_accept_find)
  let ?st2 = "st1\<lparr>errors_logged := errors_logged st1 @
                [DuplicateTitle (DocxPath old) (DocxPath r) (Title r)]\<rparr>"
  from t old have s: "sync_recipe H idx r st1 = (None, ?st2)"
    by (simp add: sync_recipe_def)
  from l p s have rest: "sync_loop H idx post ?st2 = (e, st)"
    by (simp add: sync_loop_append)
  from old have "recipes ?st2 (Title r) = Some old" by simp
  from sync_loop_recipes_mono [OF rest this] sync_loop_errors_mono [OF rest]
  show ?thesis by auto
qed

lemma reached_untitled:
  assumes l: "sync_loop H idx (pre @ r # post) (start_state c) = (e, st)"
    and pre: "fst (sync_loop H idx pre (start_state c)) = None"
    and t: "Title r = []"
  shows "MissingTitle (DocxPath r) \<in> set (errors_logged st)"
proof -
  obtain st1 where p: "sync_loop H idx pre (start_state c) = (None, st1)"
    using pre by (cases "sync_loop H idx pre (start_state c)") auto
  let ?st2 = "st1\<lparr>errors_logged := errors_logged st1 @ [MissingTitle (DocxPath r)]\<rparr>"
  from t have s: "sync_recipe H idx r st1 = (None, ?st2)"
    by (simp add: sync_recipe_def)
  from l p s have rest: "sync_loop H idx post ?st2 = (e, st)"
    by (simp add: sync_loop_append)
  from sync_loop_errors_mono [OF rest] show ?thesis by auto
qed

text \<open>
  C9. In every pass, aborted or not: each \<open>Index\<close> call carries a non-empty title and
  the first recipe of the collection with that title, so a recipe with an empty title and
  a later recipe with an already seen title are never indexed. Each recipe the loop
  reaches (the loop ran through the recipes before it) with an empty title is logged as
  missing its title; each one it reaches whose title was already met is logged as a
  duplicate of the first recipe with that title, which stays the accepted one.
\<close>

theorem empty_and_duplicate_titles_rejected:
  assumes "synchronize H idx rs c = (e, st)"
  shows "(\<forall>t x. IdxIndex t x \<in> set (calls st) \<longrightarrow>
            t \<noteq> [] \<and> Title x = t \<and> find (\<lambda>y. Title y = t) rs = Some x) \<and>
         (rs = pre @ r # post \<and> fst (sync_loop H idx pre (start_state c)) = None \<and>
            Title r = [] \<longrightarrow>
            MissingTitle (DocxPath r) \<in> set (errors_logged st)) \<and>
         (rs = pre @ r # post \<and> fst (sync_loop H idx pre (start_state c)) = None \<and>
            Title r \<noteq> [] \<and> find (\<lambda>y. Title y = Title r) pre = Some old \<longrightarrow>
            find (\<lambda>y. Title y = Title r) rs = Some old \<and>
            recipes st (Title r) = Some old \<and>
            DuplicateTitle (DocxPath old) (DocxPath r) (Title r) \<in> set (errors_logged st))"
proof -
  from synchronize_loop [OF assms] obtain st' where
    l: "sync_loop H idx rs (start_state c) = (e, st')" and
    r: "recipes st = recipes st'" and el: "errors_logged st = errors_logged st'" and
    c: "\<And>t x. (IdxIndex t x \<in> set (calls st)) = (IdxIndex t x \<in> set (calls st'))"
    by blast
  have a: "\<forall>t x. IdxIndex t x \<in> set (calls st) \<longrightarrow>
            t \<noteq> [] \<and> Title x = t \<and> find (\<lambda>y. Title y = t) rs = Some x"
  proof (intro allI impI)
    fix t x assume "IdxIndex t x \<in> set (calls st)"
    then have "IdxIndex t x \<in> set (calls st')" by (simp add: c)
    from sync_loop_indexed_first [OF l this]
    show "t \<noteq> [] \<and> Title x = t \<and> find (\<lambda>y. Title y = t) rs = Some x"
      by (simp add: start_state_def)
  qed
  have b: "rs = pre @ r # post \<and> fst (sync_loop H idx pre (start_state c)) = None \<and>
            Title r = [] \<longrightarrow> MissingTitle (DocxPath r) \<in> set (errors_logged st)"
    using reached_untitled [of H idx pre r post c e st'] l el by auto
  have d: "rs = pre @ r # post \<and> fst (sync_loop H idx pre (start_state c)) = None \<and>
            Title r \<noteq> [] \<and> find (\<lambda>y. Title y = Title r) pre = Some old \<longrightarrow>
            find (\<lambda>y. Title y = Title r) rs = Some old \<and>
            recipes st (Title r) = Some old \<and>
            DuplicateTitle (DocxPath old) (DocxPath r) (Title r) \<in> set (errors_logged st)"
    using reached_duplicate [of H idx pre r post c e st' old] l el r
    by (auto simp: find_append_Some)
  from a b d show ?thesis by blast
qed

text \<open>
  C4, as the code has it. When the loop reaches an accepted recipe whose digest is not the
  cached one and the search engine rejects its \<open>Index\<close> call, the pass returns the
  error \<open>Index fail: \<dots>\<close> at once: the state is the one of that iteration (the title
  accepted, the cache entry already set, the calls up to the rejected one), whatever
  recipes follow; they are not processed and nothing is pruned.
\<close>

theorem index_error_aborts_pass:
  assumes "sync_loop H idx pre (start_state c) = (None, st1)"
    and "Title r \<noteq> []" and "recipes st1 (Title r) = None"
    and "map_of (itemIndex st1) (Title r) = oldSha" and "oldSha \<noteq> Some (recipe_sha256 H r)"
    and "idx (calls st1 @ (if oldSha = None then [] else [IdxDelete (Title r)])) (Title r) r
           = Some msg"
  shows "synchronize H idx (pre @ r # post) c =
           (Some (''Index fail: '' @ msg),
            st1\<lparr>recipes := (recipes st1)(Title r \<mapsto> r),
                itemIndex := AList.update (Title r) (recipe_sha256 H r) (itemIndex st1),
                calls := calls st1 @ (if oldSha = None then [] else [IdxDelete (Title r)])
                           @ [IdxIndex (Title r) r]\<rparr>)"
proof -
  let ?st2 = "st1\<lparr>recipes := (recipes st1)(Title r \<mapsto> r),
                itemIndex := AList.update (Title r) (recipe_sha256 H r) (itemIndex st1),
                calls := calls st1 @ (if oldSha = None then [] else [IdxDelete (Title r)])
                           @ [IdxIndex (Title r) r]\<rparr>"
  from assms(2-6) have "sync_recipe H idx r st1 = (Some (''Index fail: '' @ msg), ?st2)"
    by (cases oldSha) (simp_all add: sync_recipe_def Let_def)
  with assms(1) have "sync_loop H idx (pre @ r # post) (start_state c)
      = (Some (''Index fail: '' @ msg), ?st2)"
    by (simp add: sync_loop_append)
  then show ?thesis
    by (simp add: synchronize_def start_state_def)
qed

subsection \<open>Pruning at the end of the pass\<close>

lemma sync_recipe_keeps_keys:
  "sync_recipe H idx r st = (e, st') \<Longrightarrow> map_of (itemIndex st) t \<noteq> None \<Longrightarrow>
   map_of (itemIndex st') t \<noteq> None"
  by (auto simp: sync_recipe_def Let_def update_conv' split: if_splits option.splits)

lemma sync_loop_keeps_keys:
  "sync_loop H idx rs st = (e, st') \<Longrightarrow> map_of (itemIndex st) t \<noteq> None \<Longrightarrow>
   map_of (itemIndex st') t \<noteq> None"
proof (induction rs arbitrary: st)
  case Nil
  then show ?case by simp
next
  case (Cons r rs)
  obtain e1 st1 where s: "sync_recipe H idx r st = (e1, st1)"
    by (cases "sync_recipe H idx r st")
  note k = sync_recipe_keeps_keys [OF s Cons.prems(2)]
  show ?case
  proof (cases e1)
    case None
    with Cons.prems s have "sync_loop H idx rs st1 = (e, st')" by simp
    from Cons.IH [OF this k] show ?thesis .
  next
    case (Some a)
    with Cons.prems s k show ?thesis by simp
  qed
qed

text \<open>
  C8. In a pass that runs to the end, \<open>st'\<close> being the state the recipe loop leaves: the
  accepted set is the one the loop built (for each non-empty title the first recipe
  with it); the cache the pass ends with is the loop's cache without the titles that are
  not accepted, and the calls of the pass are the loop's calls followed by one
  \<open>Delete\<close> for each of those titles. So a title of the loaded cache that is not
  accepted has its index entry deleted and its cache entry removed, and an accepted title
  keeps its entry, the digest of its recipe.
\<close>

theorem pass_prunes_stale_entries:
  assumes "synchronize H idx rs c = (None, st)"
  shows "(\<exists>st'. sync_loop H idx rs (start_state c) = (None, st') \<and>
           recipes st = recipes st' \<and>
           itemIndex st = filter (\<lambda>(t, d). recipes st t \<noteq> None) (itemIndex st') \<and>
           calls st = calls st' @
             map IdxDelete (filter (\<lambda>t. recipes st t = None) (map fst (itemIndex st')))) \<and>
         recipes st t = (if t = [] then None else find (\<lambda>y. Title y = t) rs) \<and>
         (map_of c t \<noteq> None \<and> recipes st t = None \<longrightarrow>
            IdxDelete t \<in> set (calls st) \<and> map_of (itemIndex st) t = None) \<and>
         (recipes st t = Some r \<longrightarrow> map_of (itemIndex st) t = Some (recipe_sha256 H r))"
proof -
  obtain e st' where l: "sync_loop H idx rs (start_state c) = (e, st')"
    by (cases "sync_loop H idx rs (start_state c)")
  with assms have e: "e = None" and st: "st = prune_stale st'"
    by (auto simp: synchronize_def split: option.splits)
  have rec: "recipes st = recipes st'"
    by (simp add: st prune_stale_def prune_loop_recipes)
  have idx: "itemIndex st = filter (\<lambda>(t, d). recipes st t \<noteq> None) (itemIndex st')"
    unfolding rec by (simp add: st prune_stale_itemIndex)
  have cs: "calls st = calls st' @
             map IdxDelete (filter (\<lambda>t. recipes st t = None) (map fst (itemIndex st')))"
    unfolding rec by (simp add: st prune_stale_def prune_loop_calls)
  from l e rec idx cs
  have p1: "\<exists>st'. sync_loop H idx rs (start_state c) = (None, st') \<and>
           recipes st = recipes st' \<and>
           itemIndex st = filter (\<lambda>(t, d). recipes st t \<noteq> None) (itemIndex st') \<and>
           calls st = calls st' @
             map IdxDelete (filter (\<lambda>t. recipes st t = None) (map fst (itemIndex st')))"
    by blast
  from l e have "recipes st' = fold accept rs Map.empty"
    using sync_loop_recipes [of H idx rs "start_state c"] by (simp add: start_state_def)
  then have p2: "recipes st t = (if t = [] then None else find (\<lambda>y. Title y = t) rs)"
    by (simp add: rec fold_accept_find)
  have m: "map_of (itemIndex st) t
      = (if recipes st' t = None then None else map_of (itemIndex st') t)"
    by (simp add: st prune_stale_map_of)
  have p3: "map_of c t \<noteq> None \<and> recipes st t = None \<longrightarrow>
           IdxDelete t \<in> set (calls st) \<and> map_of (itemIndex st) t = None"
  proof (intro impI, elim conjE)
    assume c: "map_of c t \<noteq> None" and n: "recipes st t = None"
    from c have "map_of (itemIndex (start_state c)) t \<noteq> None"
      by (simp add: start_state_def)
    from sync_loop_keeps_keys [OF l this] have "t \<in> set (map fst (itemIndex st'))"
      by (simp add: map_of_eq_None_iff)
    with n have "IdxDelete t \<in> set (calls st)"
      unfolding cs by simp
    moreover from n have "map_of (itemIndex st) t = None"
      by (simp add: m rec)
    ultimately show "IdxDelete t \<in> set (calls st) \<and> map_of (itemIndex st) t = None"
      by simp
  qed
  have "cache_ok H (recipes (start_state c)) (itemIndex (start_state c))"
    by (simp add: cache_ok_def start_state_def)
  from sync_loop_cache_ok [OF this l] have ok: "cache_ok H (recipes st') (itemIndex st')" .
  have p4: "recipes st t = Some r \<longrightarrow> map_of (itemIndex st) t = Some (recipe_sha256 H r)"
    using ok by (simp add: m rec cache_ok_def)
  from p1 p2 p3 p4 show ?thesis by (intro conjI)
qed

text \<open>The definitions the worked examples unfold.\<close>

lemmas example_defs = sync_recipe_def recipe_sha256_def hasher_input_def
      ValidCategoriesOrder_def WriteString_def plain_digest_def accept_all_def reject_key_def
      prune_stale_def start_state_def
      pie_flour_def pie_def r0_def cake_def pie_copy_def Let_def

definition after_run1 :: sync_state where
  "after_run1 = \<lparr>recipes = [''Apple Pie'' \<mapsto> pie_flour, ''Cake'' \<mapsto> cake],
       itemIndex = [(''Cake'', ''Cake4coolslice''), (''Apple Pie'', ''Apple Pie2 cups flour'')],
       calls = [IdxIndex ''Apple Pie'' pie_flour, IdxDelete ''Cake'', IdxIndex ''Cake'' cake,
                IdxDelete ''Old''],
       errors_logged = [MissingTitle ''/r/pie.docx'',
                        DuplicateTitle ''/r/pie.docx'' ''/r/copy/pie.docx'' ''Apple Pie'']\<rparr>"

lemma run1': "synchronize plain_digest accept_all [pie_flour, r0, cake, pie_copy]
     [(''Old'', ''x''), (''Cake'', ''y'')] = (None, after_run1)"
  using run1 by (simp add: after_run1_def)

theorem pass_prunes_stale_entries_witness:
  "synchronize plain_digest accept_all [pie_flour, r0, cake, pie_copy]
     [(''Old'', ''x''), (''Cake'', ''y'')] = (None, after_run1) \<and>
   map_of [(''Old'', ''x''), (''Cake'', ''y'')] ''Old'' \<noteq> None \<and>
   recipes after_run1 ''Old'' = None \<and>
   IdxDelete ''Old'' \<in> set (calls after_run1) \<and>
   map_of (itemIndex after_run1) ''Old'' = None \<and>
   recipes after_run1 ''Cake'' = Some cake \<and>
   map_of (itemIndex after_run1) ''Cake'' = Some (recipe_sha256 plain_digest cake)"
proof -
  have o: "map_of [(''Old'', ''x''), (''Cake'', ''y'')] ''Old'' \<noteq> None \<and>
           recipes after_run1 ''Old'' = None"
    by (simp add: after_run1_def)
  have k: "recipes after_run1 ''Cake'' = Some cake"
    by (simp add: after_run1_def)
  from pass_prunes_stale_entries [OF run1', of "''Old''" cake] o
  have 1: "IdxDelete ''Old'' \<in> set (calls after_run1) \<and>
           map_of (itemIndex after_run1) ''Old'' = None"
    by blast
  from pass_prunes_stale_entries [OF run1', of "''Cake''" cake] k
  have 2: "map_of (itemIndex after_run1) ''Cake'' = Some (recipe_sha256 plain_digest cake)"
    by blast
  from run1' o k 1 2 show ?thesis by simp
qed

theorem digest_is_hash_of_concatenation_witness:
  "Title cake \<noteq> [] \<and> recipes (start_state []) (Title cake) = None \<and>
   recipe_sha256 plain_digest cake = ''Cake4coolslice'' \<and>
   map_of (itemIndex (snd (sync_recipe plain_digest accept_all cake (start_state [])))) ''Cake''
     = Some ''Cake4coolslice'' \<and>
   spec_digest_input cake \<noteq> spec_digest_input pie_flour \<and>
   hasher_input cake \<noteq> hasher_input pie_flour"
proof -
  have t: "Title cake \<noteq> [] \<and> recipes (start_state []) (Title cake) = None"
    by (simp add: cake_def start_state_def)
  have d: "spec_digest_input cake \<noteq> spec_digest_input pie_flour"
    by (simp add: spec_digest_input_def spec_category_lines_def cake_def pie_flour_def pie_def)
  have p: "plain_digest (spec_digest_input cake) = ''Cake4coolslice''" "Title cake = ''Cake''"
    by (simp_all add: plain_digest_def spec_digest_input_cake) (simp add: cake_def)
  from digest_is_hash_of_concatenation [of plain_digest cake "start_state []" accept_all pie_flour]
    t d p
  show ?thesis by simp
qed

theorem empty_and_duplicate_titles_rejected_witness:
  "synchronize plain_digest accept_all [pie_flour, r0, cake, pie_copy]
     [(''Old'', ''x''), (''Cake'', ''y'')] = (None, after_run1) \<and>
   IdxIndex ''Apple Pie'' pie_flour \<in> set (calls after_run1) \<and>
   find (\<lambda>y. Title y = ''Apple Pie'') [pie_flour, r0, cake, pie_copy] = Some pie_flour \<and>
   fst (sync_loop plain_digest accept_all [pie_flour]
          (start_state [(''Old'', ''x''), (''Cake'', ''y'')])) = None \<and>
   Title r0 = [] \<and>
   MissingTitle (DocxPath r0) \<in> set (errors_logged after_run1) \<and>
   fst (sync_loop plain_digest accept_all [pie_flour, r0, cake]
          (start_state [(''Old'', ''x''), (''Cake'', ''y'')])) = None \<and>
   Title pie_copy \<noteq> [] \<and>
   find (\<lambda>y. Title y = Title pie_copy) [pie_flour, r0, cake] = Some pie_flour \<and>
   recipes after_run1 (Title pie_copy) = Some pie_flour \<and>
   DuplicateTitle (DocxPath pie_flour) (DocxPath pie_copy) (Title pie_copy)
     \<in> set (errors_logged after_run1)"
proof -
  let ?c = "[(''Old'', ''x''), (''Cake'', ''y'')]"
  have i: "IdxIndex ''Apple Pie'' pie_flour \<in> set (calls after_run1)"
    by (simp add: after_run1_def)
  have p1: "fst (sync_loop plain_digest accept_all [pie_flour] (start_state ?c)) = None"
    by (simp add: example_defs)
  have p2: "fst (sync_loop plain_digest accept_all [pie_flour, r0, cake] (start_state ?c)) = None"
    by (simp add: example_defs)
  have t: "Title r0 = []" "Title pie_copy \<noteq> []"
    by (simp_all add: example_defs)
  have f: "find (\<lambda>y. Title y = Title pie_copy) [pie_flour, r0, cake] = Some pie_flour"
    by (simp add: example_defs)
  note th = empty_and_duplicate_titles_rejected [OF run1']
  from th [of "[]" r0 "[]" r0] i
  have 1: "find (\<lambda>y. Title y = ''Apple Pie'') [pie_flour, r0, cake, pie_copy] = Some pie_flour"
    by blast
  from th [of "[pie_flour]" r0 "[cake, pie_copy]" r0] p1 t
  have 2: "MissingTitle (DocxPath r0) \<in> set (errors_logged after_run1)"
    by simp
  from th [of "[pie_flour, r0, cake]" pie_copy "[]" pie_flour] p2 t f
  have 3: "recipes after_run1 (Title pie_copy) = Some pie_flour \<and>
    DuplicateTitle (DocxPath pie_flour) (DocxPath pie_copy) (Title pie_copy)
     \<in> set (errors_logged after_run1)"
    by simp
  from run1' i 1 p1 t 2 p2 f 3 show ?thesis by simp
qed

definition before_cake :: sync_state where
  "before_cake = \<lparr>recipes = [''Apple Pie'' \<mapsto> pie_flour],
       itemIndex = [(''Cake'', ''y''), (''Apple Pie'', ''Apple Pie2 cups flour'')],
       calls = [IdxIndex ''Apple Pie'' pie_flour], errors_logged = []\<rparr>"

theorem index_error_aborts_pass_witness:
  "sync_loop plain_digest (reject_key ''Cake'') [pie_flour] (start_state [(''Cake'', ''y'')])
     = (None, before_cake) \<and>
   Title cake \<noteq> [] \<and> recipes before_cake (Title cake) = None \<and>
   map_of (itemIndex before_cake) (Title cake) = Some ''y'' \<and>
   Some ''y'' \<noteq> Some (recipe_sha256 plain_digest cake) \<and>
   reject_key ''Cake'' (calls before_cake @ [IdxDelete (Title cake)]) (Title cake) cake
     = Some ''rejected'' \<and>
   fst (synchronize plain_digest (reject_key ''Cake'') [pie_flour, cake, pie_copy]
          [(''Cake'', ''y'')]) = Some ''Index fail: rejected'' \<and>
   calls (snd (synchronize plain_digest (reject_key ''Cake'') [pie_flour, cake, pie_copy]
          [(''Cake'', ''y'')]))
     = [IdxIndex ''Apple Pie'' pie_flour, IdxDelete ''Cake'', IdxIndex ''Cake'' cake] \<and>
   errors_logged (snd (synchronize plain_digest (reject_key ''Cake'')
          [pie_flour, cake, pie_copy] [(''Cake'', ''y'')])) = []"
proof -
  have 1: "sync_loop plain_digest (reject_key ''Cake'') [pie_flour] (start_state [(''Cake'', ''y'')])
     = (None, before_cake)"
    by (simp add: example_defs before_cake_def)
  have 2: "Title cake \<noteq> []" and 3: "recipes before_cake (Title cake) = None"
    and 4: "map_of (itemIndex before_cake) (Title cake) = Some ''y''"
    and 5: "Some ''y'' \<noteq> Some (recipe_sha256 plain_digest cake)"
    by (simp_all add: example_defs before_cake_def)
  have 6: "reject_key ''Cake'' (calls before_cake @ (if Some ''y'' = None then []
      else [IdxDelete (Title cake)])) (Title cake) cake = Some ''rejected''"
    by (simp add: example_defs)
  from index_error_aborts_pass [OF 1 2 3 4 5 6, of "[pie_copy]"] 1 2 3 4 5 6
  show ?thesis by (simp add: before_cake_def cake_def)
qed

text \<open>
  C4 as stated fails on the code: the engine rejects the first recipe and would accept
  the second; the pass returns the error after the first call and the second recipe is
  neither accepted nor indexed.
\<close>

theorem index_error_stops_pass_counterexample:
  "reject_key ''Cake'' [IdxIndex ''Cake'' cake] ''Apple Pie'' pie_flour = None \<and>
   synchronize plain_digest (reject_key ''Cake'') [cake, pie_flour] []
     = (Some ''Index fail: rejected'',
        \<lparr>recipes = [''Cake'' \<mapsto> cake], itemIndex = [(''Cake'', ''Cake4coolslice'')],
         calls = [IdxIndex ''Cake'' cake], errors_logged = []\<rparr>)"
  by (simp add: synchronize_def example_defs)

section \<open>The container reader (\<open>NewDocx\<close>)\<close>

text \<open>
  An entry of the archive, as \<open>NewDocx\<close> uses it: its name, the error of \<open>file.Open()\<close>
  (\<open>None\<close> for nil), the bytes \<open>ioutil.ReadAll\<close> returns (a non-nil slice, also when
  empty) and the error of that read.
\<close>

record zip_file =
  Name :: string
  open_err :: "error option"
  contents :: bytes
  read_err :: "error option"

text \<open>
  The \<open>Docx\<close> struct. Its field \<open>Image\<close> is named \<open>docx_Image\<close> here, the name
  \<open>Image\<close> being the field of \<open>Recipe\<close>; \<open>None\<close> is the nil slice.
\<close>

record Docx =
  xmlData :: "bytes option"
  docx_Image :: "bytes option"

definition xmlFileName :: string where
  "xmlFileName = ''word/document.xml''"

text \<open>
  The loop over \<open>zipReader.File\<close> and the statements after it. The result is the
  pair \<open>(doc, err)\<close> of the named results: a bare \<open>return\<close> gives the current values,
  \<open>return nil, ErrMissingDocument\<close> gives no document.
\<close>

fun NewDocx_loop ::
  "(string \<Rightarrow> string) \<Rightarrow> zip_file list \<Rightarrow> Docx \<Rightarrow> error option \<Rightarrow>
   Docx option \<times> error option" where
  "NewDocx_loop toLower [] doc err =
     (if xmlData doc \<noteq> None \<and> docx_Image doc \<noteq> None then (Some doc, err)
      else (None, Some ErrMissingDocument))"
| "NewDocx_loop toLower (file # files) doc err =
     (if xmlData doc \<noteq> None \<and> docx_Image doc \<noteq> None then (Some doc, err)
      else
        (let lowerFileName = toLower (Name file) in
         if docx_Image doc = None \<and>
            (HasSuffix lowerFileName ''.jpg'' \<or> HasSuffix lowerFileName ''.jpeg'') then
           (case open_err file of
              Some e \<Rightarrow> NewDocx_loop toLower files doc (Some e)
            | None \<Rightarrow>
                (let doc' = doc\<lparr>docx_Image := Some (contents file)\<rparr> in
                 case read_err file of
                   Some e \<Rightarrow> (Some doc', Some e)
                 | None \<Rightarrow> NewDocx_loop toLower files doc' None))
         else if xmlData doc = None \<and> lowerFileName = xmlFileName then
           (case open_err file of
              Some e \<Rightarrow> (Some doc, Some e)
            | None \<Rightarrow>
                (let doc' = doc\<lparr>xmlData := Some (contents file)\<rparr> in
                 case read_err file of
                   Some e \<Rightarrow> (Some doc', Some e)
                 | None \<Rightarrow> NewDocx_loop toLower files doc' None))
         else NewDocx_loop toLower files doc err))"

text \<open>
  \<open>NewDocx\<close>, from the result of \<open>zip.NewReader\<close>: its error, or the entries of the
  archive in order.
\<close>

definition NewDocx ::
  "(string \<Rightarrow> string) \<Rightarrow> error + zip_file list \<Rightarrow> Docx option \<times> error option" where
  "NewDocx toLower zipReader =
     (case zipReader of
        Inl e \<Rightarrow> (Some \<lparr>xmlData = None, docx_Image = None\<rparr>, Some e)
      | Inr files \<Rightarrow> NewDocx_loop toLower files \<lparr>xmlData = None, docx_Image = None\<rparr> None)"

text \<open>Two entries for the worked examples: a document body and a cover image.\<close>

definition body_entry :: zip_file where
  "body_entry = \<lparr>Name = ''word/document.xml'', open_err = None,
                  contents = ''<document><body><p>Apple Pie</p></body></document>'',
                  read_err = None\<rparr>"

definition image_entry :: zip_file where
  "image_entry = \<lparr>Name = ''word/media/Cover.JPG'', open_err = None,
                   contents = ''JFIF'', read_err = None\<rparr>"

text \<open>The test of the image branch on an entry's name.\<close>

definition is_image_name :: "(string \<Rightarrow> string) \<Rightarrow> string \<Rightarrow> bool" where
  "is_image_name toLower n =
     (HasSuffix (toLower n) ''.jpg'' \<or> HasSuffix (toLower n) ''.jpeg'')"

text \<open>
  An archive with no image entry never opens: whatever else it holds, the result carries
  an error.
\<close>

lemma NewDocx_loop_no_image:
  "docx_Image doc = None \<Longrightarrow> \<forall>f\<in>set files. \<not> is_image_name toLower (Name f) \<Longrightarrow>
   snd (NewDocx_loop toLower files doc err) \<noteq> None"
  by (induction toLower files doc err rule: NewDocx_loop.induct)
     (auto simp: Let_def is_image_name_def split: option.splits)

text \<open>
  C1. The claim fails on the code at an archive that holds the document body and no
  image: the test after the loop asks for both parts, so \<open>NewDocx\<close> answers
  \<open>ErrMissingDocument\<close> although \<open>word/document.xml\<close> was found and read. With an
  image entry beside it the same body is returned. (The names of the entries are ASCII
  text, on which \<open>strings.ToLower\<close> is \<open>ToLower_ascii\<close>.)
\<close>

theorem body_without_image_is_rejected:
  "NewDocx ToLower_ascii (Inr [body_entry]) = (None, Some ErrMissingDocument) \<and>
   NewDocx ToLower_ascii (Inr [body_entry, image_entry])
     = (Some \<lparr>xmlData = Some (contents body_entry), docx_Image = Some (contents image_entry)\<rparr>,
        None)"
  by code_simp

section \<open>The corpus loader (\<open>ParseFiles\<close>, \<open>RecipesFromPath\<close>)\<close>

text \<open>
  The file system and the library functions the loader calls are parameters, one field
  each: \<open>filepath.Abs\<close>; \<open>os.Stat\<close> followed by \<open>IsDir\<close>; the \<open>(path, IsDir)\<close> pairs
  \<open>filepath.Walk\<close> visits, in order; \<open>ioutil.ReadDir\<close> as \<open>(Name, IsDir)\<close> pairs;
  \<open>filepath.Dir\<close> and \<open>filepath.Join\<close>; the error of \<open>os.Open\<close> and \<open>file.Stat\<close>;
  the result of \<open>zip.NewReader\<close> on the file; the tokens of the XML decoder on a byte
  sequence; \<open>strings.ToLower\<close> and \<open>strings.TrimSpace\<close>.
\<close>

record world =
  fs_Abs :: "string \<Rightarrow> error + string"
  fs_Stat_IsDir :: "string \<Rightarrow> error + bool"
  fs_Walk :: "string \<Rightarrow> (string \<times> bool) list"
  fs_ReadDir :: "string \<Rightarrow> error + (string \<times> bool) list"
  fs_Dir :: "string \<Rightarrow> string"
  fs_Join :: "string \<Rightarrow> string \<Rightarrow> string"
  fs_Open :: "string \<Rightarrow> error option"
  fs_zip :: "string \<Rightarrow> error + zip_file list"
  xml_tokens :: "bytes \<Rightarrow> xml_token list \<times> error"
  strings_ToLower :: "string \<Rightarrow> string"
  strings_TrimSpace :: "string \<Rightarrow> string"

text \<open>The loop over the directory entries, appending to \<open>r.ScanPaths\<close>.\<close>

fun scan_loop :: "world \<Rightarrow> string \<Rightarrow> (string \<times> bool) list \<Rightarrow> string list \<Rightarrow> string list" where
  "scan_loop w dir [] scanPaths = scanPaths"
| "scan_loop w dir ((name, isDir) # infos) scanPaths =
     (if isDir then scan_loop w dir infos scanPaths
      else if \<not> HasSuffix (strings_ToLower w name) ''.jpeg'' \<and>
              \<not> HasSuffix (strings_ToLower w name) ''.jpg''
        then scan_loop w dir infos scanPaths
      else scan_loop w dir infos (scanPaths @ [fs_Join w dir name]))"

text \<open>
  \<open>ParseFiles\<close> returns its error and the recipe as the call leaves it (the method
  mutates its receiver, also when it fails).
\<close>

definition ParseFiles :: "world \<Rightarrow> Recipe \<Rightarrow> error option \<times> Recipe" where
  "ParseFiles w r =
     (let dir = fs_Dir w (DocxPath r) in
      case fs_ReadDir w dir of
        Inl e \<Rightarrow> (Some e, r)
      | Inr infos \<Rightarrow>
          (let r1 = r\<lparr>ScanPaths := sort (scan_loop w dir infos (ScanPaths r))\<rparr> in
           case fs_Open w (DocxPath r1) of
             Some e \<Rightarrow> (Some e, r1)
           | None \<Rightarrow>
               (case NewDocx (strings_ToLower w) (fs_zip w (DocxPath r1)) of
                  (_, Some e) \<Rightarrow> (Some e, r1)
                | (None, None) \<Rightarrow> (Some NilDereference, r1)
                | (Some docx, None) \<Rightarrow>
                    (let r2 = r1\<lparr>Image := docx_Image docx\<rparr> in
                     case Text (strings_ToLower w) (strings_TrimSpace w)
                            (xml_tokens w (case xmlData docx of None \<Rightarrow> [] | Some b \<Rightarrow> b)) of
                       (lines, Some e) \<Rightarrow> (Some e, r2)
                     | (lines, None) \<Rightarrow>
                         (None, parse_lines (strings_ToLower w) lines
                                  (r2\<lparr>Info := Map.empty\<rparr>))))))"

text \<open>\<open>&Recipe{DocxPath: path}\<close>: every other field has its zero value.\<close>

definition new_Recipe :: "string \<Rightarrow> Recipe" where
  "new_Recipe path =
     \<lparr>Title = [], Info = Map.empty, DocxPath = path, ScanPaths = [], Image = None\<rparr>"

text \<open>
  The callback of \<open>filepath.Walk\<close>, run on the visited entries in order. (An entry
  whose \<open>Lstat\<close> fails, for which the callback would get no \<open>FileInfo\<close>, is not
  among them.)
\<close>

fun walk_loop ::
  "(string \<Rightarrow> string) \<Rightarrow> (string \<times> bool) list \<Rightarrow> Recipe list \<Rightarrow> Recipe list" where
  "walk_loop toLower [] recipeList = recipeList"
| "walk_loop toLower ((path, isDir) # entries) recipeList =
     (if isDir \<or> \<not> HasSuffix (toLower path) ''.docx''
      then walk_loop toLower entries recipeList
      else walk_loop toLower entries (recipeList @ [new_Recipe path]))"

text \<open>
  \<open>RecipesFromPath\<close>. The callback always returns nil, so \<open>filepath.Walk\<close> does too.
  Each goroutine calls \<open>ParseFiles\<close> on its own recipe and drops the error; the
  recipes share nothing, so the result after \<open>wg.Wait()\<close> does not depend on the
  interleaving: every element of the slice is the recipe its own call leaves.
\<close>

definition RecipesFromPath :: "world \<Rightarrow> string \<Rightarrow> Recipe list \<times> error option" where
  "RecipesFromPath w dirPath0 =
     (case fs_Abs w dirPath0 of
        Inl e \<Rightarrow> ([], Some e)
      | Inr dirPath \<Rightarrow>
          (case fs_Stat_IsDir w dirPath of
             Inl e \<Rightarrow> ([], Some e)
           | Inr isDir \<Rightarrow>
               if \<not> isDir then ([], Some (NotADirectory dirPath))
               else
                 (let recipeList = walk_loop (strings_ToLower w) (fs_Walk w dirPath) []
                  in (map (\<lambda>r. snd (ParseFiles w r)) recipeList, None))))"

subsection \<open>What a failed extraction leaves\<close>

lemma parse_line_DocxPath:
  "DocxPath (recipe (parse_line toLower l s)) = DocxPath (recipe s)"
  by (simp add: parse_line_def Let_def Info_append_def)

lemma fold_parse_line_DocxPath:
  "DocxPath (recipe (fold (parse_line toLower) ls s)) = DocxPath (recipe s)"
  by (induction ls arbitrary: s) (simp_all add: parse_line_DocxPath)

lemma ParseFiles_DocxPath: "DocxPath (snd (ParseFiles w r)) = DocxPath r"
  by (simp add: ParseFiles_def Let_def parse_lines_def fold_parse_line_DocxPath
      split: sum.split option.split prod.split)

lemma ParseFiles_failure:
  "fst (ParseFiles w r) \<noteq> None \<Longrightarrow>
   Title (snd (ParseFiles w r)) = Title r \<and> Info (snd (ParseFiles w r)) = Info r"
  by (auto simp: ParseFiles_def Let_def split: sum.splits option.splits prod.splits)

text \<open>The paths the callback keeps: files whose lowercased path ends in \<open>.docx\<close>.\<close>

definition docx_paths :: "(string \<Rightarrow> string) \<Rightarrow> (string \<times> bool) list \<Rightarrow> string list" where
  "docx_paths toLower entries =
     map fst (filter (\<lambda>(path, isDir). \<not> isDir \<and> HasSuffix (toLower path) ''.docx'') entries)"

lemma walk_loop_eq:
  "walk_loop toLower entries rs = rs @ map new_Recipe (docx_paths toLower entries)"
  by (induction toLower entries rs rule: walk_loop.induct) (auto simp: docx_paths_def)

text \<open>
  C5, as the code has it. When the root is a directory, the load returns no error and one
  recipe for each document file the walk visits, in walk order, each being what
  \<open>ParseFiles\<close> leaves of a recipe holding only the path: a failing extraction does not
  abort the batch and its recipe stays in the collection, with an empty title and no
  category.
\<close>

theorem failing_document_stays_in_collection:
  assumes "fs_Abs w p = Inr d" and "fs_Stat_IsDir w d = Inr True"
  shows "snd (RecipesFromPath w p) = None \<and>
         fst (RecipesFromPath w p)
           = map (\<lambda>path. snd (ParseFiles w (new_Recipe path))) (docx_paths (strings_ToLower w) (fs_Walk w d)) \<and>
         map DocxPath (fst (RecipesFromPath w p)) = docx_paths (strings_ToLower w) (fs_Walk w d) \<and>
         (\<forall>path\<in>set (docx_paths (strings_ToLower w) (fs_Walk w d)).
            fst (ParseFiles w (new_Recipe path)) \<noteq> None \<longrightarrow>
            Title (snd (ParseFiles w (new_Recipe path))) = [] \<and>
            Info (snd (ParseFiles w (new_Recipe path))) = Map.empty)"
proof -
  have r: "RecipesFromPath w p
      = (map (\<lambda>path. snd (ParseFiles w (new_Recipe path))) (docx_paths (strings_ToLower w) (fs_Walk w d)), None)"
    using assms by (simp add: RecipesFromPath_def walk_loop_eq comp_def)
  have "map DocxPath (fst (RecipesFromPath w p)) = docx_paths (strings_ToLower w) (fs_Walk w d)"
    unfolding r by (simp add: comp_def ParseFiles_DocxPath new_Recipe_def)
  moreover have "\<forall>path\<in>set (docx_paths (strings_ToLower w) (fs_Walk w d)).
            fst (ParseFiles w (new_Recipe path)) \<noteq> None \<longrightarrow>
            Title (snd (ParseFiles w (new_Recipe path))) = [] \<and>
            Info (snd (ParseFiles w (new_Recipe path))) = Map.empty"
    using ParseFiles_failure [of w] by (simp add: new_Recipe_def)
  ultimately show ?thesis using r by simp
qed

subsection \<open>A corpus with a failing document\<close>

text \<open>
  The directory \<open>/r\<close> holds, in the lexical order in which \<open>filepath.Walk\<close> visits and
  \<open>ioutil.ReadDir\<close> lists them, \<open>bad.docx\<close>, \<open>notes.txt\<close>, \<open>pie.docx\<close> and two scans.
  The archive of \<open>pie.docx\<close> holds a content-types part, the document body \<open>pie_xml\<close>
  and an image; the archive of \<open>bad.docx\<close> holds no document body; the other files are
  no archives. The decoder's tokens are given for \<open>pie_xml\<close>, the one byte sequence
  decoded here. All names and texts are ASCII.
\<close>

definition pie_xml :: bytes where
  "pie_xml = ''<document><body><p>Grandmas Recipe</p><p>Apple Pie</p>'' @
             ''<p>Ingredients:</p><p>2 cups flour</p></body></document>''"

definition pie_tokens :: "xml_token list \<times> error" where
  "pie_tokens =
     ([StartElement ''document'', StartElement ''body'',
       StartElement ''p'', CharData ''Grandmas Recipe'', EndElement ''p'',
       StartElement ''p'', CharData ''Apple Pie'', EndElement ''p'',
       StartElement ''p'', CharData ''Ingredients:'', EndElement ''p'',
       StartElement ''p'', CharData ''2 cups flour'', EndElement ''p'',
       EndElement ''body'', EndElement ''document''], EOF)"

definition types_entry :: zip_file where
  "types_entry = \<lparr>Name = ''[Content_Types].xml'', open_err = None,
                   contents = ''<Types></Types>'', read_err = None\<rparr>"

definition pie_body_entry :: zip_file where
  "pie_body_entry = \<lparr>Name = ''word/document.xml'', open_err = None,
                      contents = pie_xml, read_err = None\<rparr>"

definition media_entry :: zip_file where
  "media_entry = \<lparr>Name = ''word/media/image1.jpeg'', open_err = None,
                   contents = ''JFIF'', read_err = None\<rparr>"

text \<open>\<open>filepath.Dir\<close> and \<open>filepath.Join\<close> on clean paths.\<close>

definition Dir_clean :: "string \<Rightarrow> string" where
  "Dir_clean path =
     (if CHR ''/'' \<notin> set path then ''.''
      else (let d = butlast (rev (dropWhile (\<lambda>c. c \<noteq> CHR ''/'') (rev path)))
            in if d = [] then ''/'' else d))"

definition Join_clean :: "string \<Rightarrow> string \<Rightarrow> string" where
  "Join_clean dir name = (if dir = ''/'' then dir @ name else dir @ ''/'' @ name)"

definition corpus :: world where
  "corpus =
     \<lparr>fs_Abs = (\<lambda>p. Inr p),
      fs_Stat_IsDir = (\<lambda>p. if p = ''/r'' then Inr True
                            else if p \<in> set [''/r/bad.docx'', ''/r/notes.txt'', ''/r/pie.docx'',
                                              ''/r/scan1.jpeg'', ''/r/scan2.jpg'']
                            then Inr False else Inl FSError),
      fs_Walk = (\<lambda>p. if p = ''/r''
                      then [(''/r'', True), (''/r/bad.docx'', False), (''/r/notes.txt'', False),
                            (''/r/pie.docx'', False), (''/r/scan1.jpeg'', False),
                            (''/r/scan2.jpg'', False)]
                      else []),
      fs_ReadDir = (\<lambda>d. if d = ''/r''
                         then Inr [(''bad.docx'', False), (''notes.txt'', False),
                                   (''pie.docx'', False), (''scan1.jpeg'', False),
                                   (''scan2.jpg'', False)]
                         else Inl FSError),
      fs_Dir = Dir_clean,
      fs_Join = Join_clean,
      fs_Open = (\<lambda>p. if p \<in> set [''/r/bad.docx'', ''/r/notes.txt'', ''/r/pie.docx'',
                                     ''/r/scan1.jpeg'', ''/r/scan2.jpg'']
                      then None else Some OpenError),
      fs_zip = (\<lambda>p. if p = ''/r/pie.docx'' then Inr [types_entry, pie_body_entry, media_entry]
                     else if p = ''/r/bad.docx'' then Inr [types_entry, media_entry]
                     else Inl ZipError),
      xml_tokens = (\<lambda>b. if b = pie_xml then pie_tokens
                         else if b = [] then ([], EOF) else ([], XMLSyntaxError)),
      strings_ToLower = ToLower_ascii,
      strings_TrimSpace = TrimSpace_ascii\<rparr>"

lemma bad_fails:
  "fst (ParseFiles corpus (new_Recipe ''/r/bad.docx'')) = Some ErrMissingDocument"
  by code_simp

lemma corpus_paths:
  "docx_paths (strings_ToLower corpus) (fs_Walk corpus ''/r'') = [''/r/bad.docx'', ''/r/pie.docx'']"
  by code_simp

lemma corpus_titles: "map Title (fst (RecipesFromPath corpus ''/r'')) = ['''', ''Apple Pie'']"
  by code_simp

lemma corpus_docx:
  "map DocxPath (fst (RecipesFromPath corpus ''/r'')) = [''/r/bad.docx'', ''/r/pie.docx'']"
  by code_simp

lemma corpus_scans:
  "map ScanPaths (fst (RecipesFromPath corpus ''/r''))
     = [[''/r/scan1.jpeg'', ''/r/scan2.jpg''], [''/r/scan1.jpeg'', ''/r/scan2.jpg'']]"
  by code_simp

text \<open>
  C5 as stated fails on the code: the extraction of \<open>/r/bad.docx\<close> fails (its archive
  has no document body), and the returned collection still has an element for it, with an
  empty title, before the recipe of the good document.
\<close>

theorem failing_document_not_dropped_counterexample:
  "fst (ParseFiles corpus (new_Recipe ''/r/bad.docx'')) = Some ErrMissingDocument \<and>
   map DocxPath (fst (RecipesFromPath corpus ''/r'')) = [''/r/bad.docx'', ''/r/pie.docx''] \<and>
   map Title (fst (RecipesFromPath corpus ''/r'')) = ['''', ''Apple Pie'']"
  using bad_fails corpus_docx corpus_titles by simp

theorem failing_document_stays_in_collection_witness:
  "fs_Abs corpus ''/r'' = Inr ''/r'' \<and> fs_Stat_IsDir corpus ''/r'' = Inr True \<and>
   ''/r/bad.docx'' \<in> set (docx_paths (strings_ToLower corpus) (fs_Walk corpus ''/r'')) \<and>
   fst (ParseFiles corpus (new_Recipe ''/r/bad.docx'')) \<noteq> None \<and>
   snd (RecipesFromPath corpus ''/r'') = None \<and>
   map DocxPath (fst (RecipesFromPath corpus ''/r'')) = [''/r/bad.docx'', ''/r/pie.docx''] \<and>
   Title (snd (ParseFiles corpus (new_Recipe ''/r/bad.docx''))) = [] \<and>
   Info (snd (ParseFiles corpus (new_Recipe ''/r/bad.docx''))) = Map.empty"
proof -
  have a: "fs_Abs corpus ''/r'' = Inr ''/r''" and b: "fs_Stat_IsDir corpus ''/r'' = Inr True"
    by (simp_all add: corpus_def)
  have m: "''/r/bad.docx'' \<in> set (docx_paths (strings_ToLower corpus) (fs_Walk corpus ''/r''))"
    unfolding corpus_paths by simp
  have f: "fst (ParseFiles corpus (new_Recipe ''/r/bad.docx'')) \<noteq> None"
    using bad_fails by simp
  note th = failing_document_stays_in_collection [OF a b]
  from th have 1: "snd (RecipesFromPath corpus ''/r'') = None" by blast
  from th have 2: "map DocxPath (fst (RecipesFromPath corpus ''/r'')) = docx_paths (strings_ToLower corpus) (fs_Walk corpus ''/r'')"
    by blast
  from th m f have 3: "Title (snd (ParseFiles corpus (new_Recipe ''/r/bad.docx''))) = [] \<and>
     Info (snd (ParseFiles corpus (new_Recipe ''/r/bad.docx''))) = Map.empty"
    by blast
  from a b m f 1 2 3 show ?thesis by (simp add: corpus_paths)
qed

section \<open>The fingerprint cache file (\<open>GetItemIndex\<close>, \<open>SaveItemIndex\<close>)\<close>

definition sha256_Size :: nat where
  "sha256_Size = 32"

subsection \<open>The buffered reader of the standard library\<close>

text \<open>
  \<open>bufio.NewReader(file)\<close> has a buffer of \<open>defaultBufSize\<close> bytes. The model keeps the
  bytes that are buffered and not yet consumed and the bytes of the file not yet read
  from it. A read of the file returns as many bytes as asked for, or all that are left
  when there are fewer, and \<open>io.EOF\<close> with no byte at the end.
\<close>

definition defaultBufSize :: nat where
  "defaultBufSize = 4096"

record Reader =
  buffered :: bytes
  unread :: bytes

text \<open>
  \<open>fill\<close> slides the buffered bytes to the start of the buffer and reads once from the
  file into the free space behind them.
\<close>

definition fill :: "Reader \<Rightarrow> Reader" where
  "fill b =
     (let n = defaultBufSize - length (buffered b)
      in b\<lparr>buffered := buffered b @ take n (unread b), unread := drop n (unread b)\<rparr>)"

text \<open>
  \<open>ReadBytes(delim)\<close>: \<open>ReadSlice\<close> searches the buffer; a full buffer without the
  delimiter is handed over as a fragment and emptied; otherwise the buffer is filled,
  and at the end of the file what is buffered is returned with \<open>io.EOF\<close>. The
  fragments are accumulated in \<open>acc\<close>.
\<close>

function ReadBytes_loop :: "char \<Rightarrow> bytes \<Rightarrow> Reader \<Rightarrow> bytes \<times> error option \<times> Reader" where
  "ReadBytes_loop delim acc b =
     (if delim \<in> set (buffered b) then
        (acc @ takeWhile (\<lambda>c. c \<noteq> delim) (buffered b) @ [delim], None,
         b\<lparr>buffered := tl (dropWhile (\<lambda>c. c \<noteq> delim) (buffered b))\<rparr>)
      else if defaultBufSize \<le> length (buffered b) then
        ReadBytes_loop delim (acc @ buffered b) (b\<lparr>buffered := []\<rparr>)
      else if unread b = [] then (acc @ buffered b, Some EOF, b\<lparr>buffered := []\<rparr>)
      else ReadBytes_loop delim acc (fill b))"
  by pat_completeness auto
termination
proof (relation "measures [\<lambda>(delim, acc, b). length (unread b),
                            \<lambda>(delim, acc, b). length (buffered b)]", goal_cases)
  case 1
  show ?case by simp
next
  case (2 delim acc b)
  then show ?case by (cases "buffered b") (simp_all add: defaultBufSize_def)
next
  case (3 delim acc b)
  then show ?case
    by (cases "unread b") (auto simp: fill_def defaultBufSize_def Let_def)
qed

declare ReadBytes_loop.simps [simp del]

definition ReadBytes :: "char \<Rightarrow> Reader \<Rightarrow> bytes \<times> error option \<times> Reader" where
  "ReadBytes delim b = ReadBytes_loop delim [] b"

text \<open>
  \<open>Read(p)\<close> with \<open>len(p) = n\<close>: the bytes copied into \<open>p\<close>. Buffered bytes are handed
  out first, as many as there are and at most \<open>n\<close>, without reading the file; an empty
  buffer is refilled by one read of the file (a read of a whole buffer or more goes to
  \<open>p\<close> directly).
\<close>

definition Read :: "nat \<Rightarrow> Reader \<Rightarrow> bytes \<times> error option \<times> Reader" where
  "Read n b =
     (if n = 0 then ([], None, b)
      else if buffered b = [] then
        (if unread b = [] then ([], Some EOF, b)
         else if defaultBufSize \<le> n then
           (take n (unread b), None, b\<lparr>unread := drop n (unread b)\<rparr>)
         else
           (let buf = take defaultBufSize (unread b)
            in (take n buf, None,
                b\<lparr>buffered := drop n buf, unread := drop defaultBufSize (unread b)\<rparr>)))
      else (take n (buffered b), None, b\<lparr>buffered := drop n (buffered b)\<rparr>))"

lemma ReadBytes_loop_consumes:
  "ReadBytes_loop delim acc b = (data, None, b') \<Longrightarrow>
   length (buffered b') + length (unread b') < length (buffered b) + length (unread b)"
proof (induction delim acc b rule: ReadBytes_loop.induct)
  case (1 delim acc b)
  show ?case
  proof (cases "delim \<in> set (buffered b)")
    case True
    then have "dropWhile (\<lambda>c. c \<noteq> delim) (buffered b) \<noteq> []"
      by simp
    then have "length (tl (dropWhile (\<lambda>c. c \<noteq> delim) (buffered b))) < length (buffered b)"
      using length_dropWhile_le [of "\<lambda>c. c \<noteq> delim" "buffered b"]
      by (cases "dropWhile (\<lambda>c. c \<noteq> delim) (buffered b)") auto
    with True "1.prems" show ?thesis
      by (auto simp: ReadBytes_loop.simps [of delim acc b])
  next
    case False
    note nf = False
    show ?thesis
    proof (cases "defaultBufSize \<le> length (buffered b)")
      case True
      with nf "1.prems" have "ReadBytes_loop delim (acc @ buffered b) (b\<lparr>buffered := []\<rparr>) = (data, None, b')"
        by (simp add: ReadBytes_loop.simps [of delim acc b])
      from "1.IH"(1) [OF nf True this] show ?thesis by simp
    next
      case False
      note nfull = False
      show ?thesis
      proof (cases "unread b = []")
        case True
        with nf nfull "1.prems" show ?thesis
          by (simp add: ReadBytes_loop.simps [of delim acc b])
      next
        case False
        with nf nfull "1.prems" have "ReadBytes_loop delim acc (fill b) = (data, None, b')"
          by (simp add: ReadBytes_loop.simps [of delim acc b])
        from "1.IH"(2) [OF nf nfull False this] show ?thesis
          by (simp add: fill_def Let_def)
      qed
    qed
  qed
qed

lemma Read_no_more:
  "Read n b = (got, err, b') \<Longrightarrow>
   length (buffered b') + length (unread b') \<le> length (buffered b) + length (unread b)"
  by (auto simp: Read_def Let_def split: if_splits)

subsection \<open>Loading and saving\<close>

text \<open>
  The loop of \<open>GetItemIndex\<close>. \<open>sha256sum\<close> is a fresh slice of \<open>sha256.Size\<close> zero
  bytes into which \<open>reader.Read\<close> copies what it returns.
\<close>

function GetItemIndex_loop ::
  "Reader \<Rightarrow> (string \<times> bytes) list \<Rightarrow> error + (string \<times> bytes) list" where
  "GetItemIndex_loop reader itemIdx =
     (case ReadBytes CHR 0x0A reader of
        (data, Some err, reader1) \<Rightarrow> (if err = EOF then Inr itemIdx else Inl err)
      | (data, None, reader1) \<Rightarrow>
          (let key = butlast data in
           case Read sha256_Size reader1 of
             (got, err, reader2) \<Rightarrow>
               (let sha256sum = got @ replicate (sha256_Size - length got) (CHR 0x00) in
                if err \<noteq> None \<and> length got \<noteq> sha256_Size then Inl (the err)
                else
                  (let itemIdx' = AList.update key sha256sum itemIdx in
                   if err = Some EOF then Inr itemIdx'
                   else GetItemIndex_loop reader2 itemIdx'))))"
  by pat_completeness auto
termination
proof (relation "measure (\<lambda>(reader, itemIdx). length (buffered reader) + length (unread reader))",
    goal_cases)
  case 1
  show ?case by simp
next
  case (2 reader itemIdx x y xa ya xaa xb yb xc yc xd xe)
  then have "ReadBytes_loop CHR 0x0A [] reader = (x, None, ya)"
    and "Read sha256_Size ya = (xb, xc, yc)"
    by (simp_all add: ReadBytes_def)
  from ReadBytes_loop_consumes [OF this(1)] Read_no_more [OF this(2)]
  show ?case by simp
qed

declare GetItemIndex_loop.simps [simp del]

text \<open>
  \<open>GetItemIndex\<close>, from the contents of the file at \<open>path\<close> (\<open>None\<close> when \<open>os.Open\<close>
  fails).
\<close>

definition GetItemIndex :: "bytes option \<Rightarrow> error + (string \<times> bytes) list" where
  "GetItemIndex file =
     (case file of
        None \<Rightarrow> Inl OpenError
      | Some content \<Rightarrow> GetItemIndex_loop \<lparr>buffered = [], unread = content\<rparr> [])"

text \<open>
  \<open>SaveItemIndex\<close>: the loop ranges over the map (the order of the list stands for the
  iteration order) and appends the key, a line feed and the digest to the file. The
  result is the error and the contents of the file created; \<open>os.Create\<close> fails when
  \<open>can_create\<close> is false. (A failing write is not modelled.)
\<close>

fun SaveItemIndex_loop :: "(string \<times> bytes) list \<Rightarrow> bytes \<Rightarrow> bytes" where
  "SaveItemIndex_loop [] file = file"
| "SaveItemIndex_loop ((key, sha256sum) # itemIdx) file =
     SaveItemIndex_loop itemIdx ((file @ (key @ [CHR 0x0A])) @ sha256sum)"

definition SaveItemIndex :: "(string \<times> bytes) list \<Rightarrow> bool \<Rightarrow> error option \<times> bytes option" where
  "SaveItemIndex itemIdx can_create =
     (if can_create then (None, Some (SaveItemIndex_loop itemIdx []))
      else (Some OpenError, None))"

lemma ReadBytes_loop_found:
  "delim \<in> set (buffered b) \<Longrightarrow>
   ReadBytes_loop delim acc b =
     (acc @ takeWhile (\<lambda>c. c \<noteq> delim) (buffered b) @ [delim], None,
      b\<lparr>buffered := tl (dropWhile (\<lambda>c. c \<noteq> delim) (buffered b))\<rparr>)"
  by (simp add: ReadBytes_loop.simps [of delim acc b])

lemma ReadBytes_loop_fill:
  "delim \<notin> set (buffered b) \<Longrightarrow> length (buffered b) < defaultBufSize \<Longrightarrow> unread b \<noteq> [] \<Longrightarrow>
   ReadBytes_loop delim acc b = ReadBytes_loop delim acc (fill b)"
  by (simp add: ReadBytes_loop.simps [of delim acc b])

lemma ReadBytes_loop_EOF:
  "delim \<notin> set (buffered b) \<Longrightarrow> length (buffered b) < defaultBufSize \<Longrightarrow> unread b = [] \<Longrightarrow>
   ReadBytes_loop delim acc b = (acc @ buffered b, Some EOF, b\<lparr>buffered := []\<rparr>)"
  by (simp add: ReadBytes_loop.simps [of delim acc b])

lemma takeWhile_replicate_delim:
  "x \<noteq> d \<Longrightarrow> takeWhile (\<lambda>c. c \<noteq> d) (replicate n x @ d # ys) = replicate n x"
  by (induction n) auto

lemma dropWhile_replicate_delim:
  "x \<noteq> d \<Longrightarrow> dropWhile (\<lambda>c. c \<noteq> d) (replicate n x @ d # ys) = d # ys"
  by (induction n) auto

subsection \<open>A digest across the end of the buffer\<close>

definition long_title :: string where
  "long_title = replicate 4080 CHR ''a''"

definition digest1 :: bytes where
  "digest1 = replicate 32 CHR 0x01"

lemma saved: "SaveItemIndex [(long_title, digest1)] True
   = (None, Some (long_title @ CHR 0x0A # digest1))"
  by (simp add: SaveItemIndex_def)

lemma first_line:
  "ReadBytes CHR 0x0A \<lparr>buffered = [], unread = long_title @ CHR 0x0A # digest1\<rparr>
     = (long_title @ [CHR 0x0A], None,
        \<lparr>buffered = replicate 15 CHR 0x01, unread = replicate 17 CHR 0x01\<rparr>)"
proof -
  let ?b0 = "\<lparr>buffered = [], unread = long_title @ CHR 0x0A # digest1\<rparr>"
  have f: "fill ?b0 = \<lparr>buffered = long_title @ CHR 0x0A # replicate 15 CHR 0x01,
                        unread = replicate 17 CHR 0x01\<rparr>"
    by (simp add: fill_def defaultBufSize_def long_title_def digest1_def)
  have "ReadBytes_loop CHR 0x0A [] ?b0 = ReadBytes_loop CHR 0x0A [] (fill ?b0)"
    by (rule ReadBytes_loop_fill) (simp_all add: defaultBufSize_def)
  also have "\<dots> = (long_title @ [CHR 0x0A], None,
        \<lparr>buffered = replicate 15 CHR 0x01, unread = replicate 17 CHR 0x01\<rparr>)"
    unfolding f
    by (subst ReadBytes_loop_found)
       (simp_all add: long_title_def takeWhile_replicate_delim dropWhile_replicate_delim)
  finally show ?thesis by (simp add: ReadBytes_def)
qed

lemma short_read:
  "Read sha256_Size \<lparr>buffered = replicate 15 CHR 0x01, unread = replicate 17 CHR 0x01\<rparr>
     = (replicate 15 CHR 0x01, None, \<lparr>buffered = [], unread = replicate 17 CHR 0x01\<rparr>)"
  by (simp add: Read_def sha256_Size_def)

lemma second_line:
  "ReadBytes CHR 0x0A \<lparr>buffered = [], unread = replicate 17 CHR 0x01\<rparr>
     = (replicate 17 CHR 0x01, Some EOF, \<lparr>buffered = [], unread = []\<rparr>)"
proof -
  let ?b = "\<lparr>buffered = [], unread = replicate 17 CHR 0x01\<rparr>"
  have f: "fill ?b = \<lparr>buffered = replicate 17 CHR 0x01, unread = []\<rparr>"
    by (simp add: fill_def defaultBufSize_def)
  have "ReadBytes_loop CHR 0x0A [] ?b = ReadBytes_loop CHR 0x0A [] (fill ?b)"
    by (rule ReadBytes_loop_fill) (simp_all add: defaultBufSize_def)
  also have "\<dots> = (replicate 17 CHR 0x01, Some EOF, \<lparr>buffered = [], unread = []\<rparr>)"
    unfolding f by (subst ReadBytes_loop_EOF) (simp_all add: defaultBufSize_def)
  finally show ?thesis by (simp add: ReadBytes_def)
qed

text \<open>
  C10. The claim fails on the code at a cache whose file is longer than the reader's
  buffer: for one title of 4080 bytes, the 32 bytes of the digest start at offset 4081,
  so only 15 of them are buffered when \<open>reader.Read\<close> is called; it returns those 15
  with a nil error, the check \<open>err != nil && read != sha256.Size\<close> lets the short read
  pass, and the entry is stored with 17 zero bytes in place of the rest of the digest.
\<close>

theorem digest_across_buffer_boundary_is_cut:
  "SaveItemIndex [(long_title, digest1)] True
     = (None, Some (long_title @ CHR 0x0A # digest1)) \<and>
   GetItemIndex (Some (long_title @ CHR 0x0A # digest1))
     = Inr [(long_title, replicate 15 CHR 0x01 @ replicate 17 CHR 0x00)]"
proof -
  have "GetItemIndex (Some (long_title @ CHR 0x0A # digest1))
      = GetItemIndex_loop \<lparr>buffered = [], unread = replicate 17 CHR 0x01\<rparr>
          [(long_title, replicate 15 CHR 0x01 @ replicate 17 CHR 0x00)]"
    unfolding GetItemIndex_def
    by (simp add: GetItemIndex_loop.simps [of "\<lparr>buffered = [], unread = long_title @ _\<rparr>"]
        first_line short_read short_read [unfolded sha256_Size_def] sha256_Size_def)
  also have "\<dots> = Inr [(long_title, replicate 15 CHR 0x01 @ replicate 17 CHR 0x00)]"
    by (simp add: GetItemIndex_loop.simps [of "\<lparr>buffered = [], unread = replicate 17 _\<rparr>"]
        second_line)
  finally show ?thesis using saved by simp
qed

subsection \<open>Caches that fit in the buffer\<close>

text \<open>The bytes \<open>SaveItemIndex\<close> writes: one record per entry, in iteration order.\<close>

definition cache_records :: "(string \<times> bytes) list \<Rightarrow> bytes" where
  "cache_records itemIdx = concat (map (\<lambda>(key, sha256sum). key @ CHR 0x0A # sha256sum) itemIdx)"

lemma SaveItemIndex_loop_records:
  "SaveItemIndex_loop itemIdx out = out @ cache_records itemIdx"
  by (induction itemIdx out rule: SaveItemIndex_loop.induct) (simp_all add: cache_records_def)

text \<open>The entries assigned one after the other to the map being loaded.\<close>

definition load_all :: "(string \<times> bytes) list \<Rightarrow> (string \<times> bytes) list \<Rightarrow> (string \<times> bytes) list" where
  "load_all xs acc = fold (\<lambda>(key, sha256sum). AList.update key sha256sum) xs acc"

lemma takeWhile_key:
  "d \<notin> set k \<Longrightarrow> takeWhile (\<lambda>c. c \<noteq> d) (k @ d # ys) = k"
  by (induction k) auto

lemma dropWhile_key:
  "d \<notin> set k \<Longrightarrow> dropWhile (\<lambda>c. c \<noteq> d) (k @ d # ys) = d # ys"
  by (induction k) auto

lemma GetItemIndex_loop_buffered:
  assumes "\<forall>(key, sha256sum) \<in> set xs. CHR 0x0A \<notin> set key \<and> length sha256sum = sha256_Size"
  shows "GetItemIndex_loop \<lparr>buffered = cache_records xs, unread = []\<rparr> acc = Inr (load_all xs acc)"
  using assms
proof (induction xs arbitrary: acc)
  case Nil
  have "ReadBytes CHR 0x0A \<lparr>buffered = [], unread = []\<rparr>
      = ([], Some EOF, \<lparr>buffered = [], unread = []\<rparr>)"
    unfolding ReadBytes_def by (subst ReadBytes_loop_EOF) (simp_all add: defaultBufSize_def)
  then show ?case
    by (simp add: GetItemIndex_loop.simps [of "\<lparr>buffered = [], unread = []\<rparr>"]
        cache_records_def load_all_def)
next
  case (Cons x xs)
  obtain k d where x: "x = (k, d)" by (cases x)
  with Cons.prems have k: "CHR 0x0A \<notin> set k" and d: "length d = sha256_Size"
    and rest: "\<forall>(key, sha256sum) \<in> set xs. CHR 0x0A \<notin> set key \<and> length sha256sum = sha256_Size"
    by auto
  let ?b = "\<lparr>buffered = cache_records (x # xs), unread = []\<rparr>"
  have buf: "cache_records (x # xs) = k @ CHR 0x0A # d @ cache_records xs"
    by (simp add: cache_records_def x)
  have 1: "ReadBytes CHR 0x0A ?b
      = (k @ [CHR 0x0A], None, \<lparr>buffered = d @ cache_records xs, unread = []\<rparr>)"
    unfolding ReadBytes_def buf
    by (subst ReadBytes_loop_found) (simp_all add: takeWhile_key [OF k] dropWhile_key [OF k])
  from d have 2: "Read sha256_Size \<lparr>buffered = d @ cache_records xs, unread = []\<rparr>
      = (d, None, \<lparr>buffered = cache_records xs, unread = []\<rparr>)"
    by (auto simp: Read_def sha256_Size_def)
  have "GetItemIndex_loop ?b acc
      = GetItemIndex_loop \<lparr>buffered = cache_records xs, unread = []\<rparr> (AList.update k d acc)"
    by (subst GetItemIndex_loop.simps) (simp add: 1 2 d)
  also have "\<dots> = Inr (load_all xs (AList.update k d acc))"
    by (rule Cons.IH [OF rest])
  finally show ?case by (simp add: load_all_def x)
qed

lemma GetItemIndex_loop_first_fill:
  assumes "length content \<le> defaultBufSize"
  shows "GetItemIndex_loop \<lparr>buffered = [], unread = content\<rparr> acc
       = GetItemIndex_loop \<lparr>buffered = content, unread = []\<rparr> acc"
proof (cases "content = []")
  case True
  then show ?thesis by simp
next
  case False
  let ?b0 = "\<lparr>buffered = [], unread = content\<rparr>"
  let ?b1 = "\<lparr>buffered = content, unread = []\<rparr>"
  have f: "fill ?b0 = ?b1"
    using assms by (simp add: fill_def)
  have r0: "ReadBytes_loop CHR 0x0A [] ?b0 = ReadBytes_loop CHR 0x0A [] (fill ?b0)"
    using False by (intro ReadBytes_loop_fill) (simp_all add: defaultBufSize_def)
  have "ReadBytes CHR 0x0A ?b0 = ReadBytes CHR 0x0A ?b1"
    using r0 unfolding f by (simp add: ReadBytes_def)
  then show ?thesis
    by (simp add: GetItemIndex_loop.simps [of ?b0] GetItemIndex_loop.simps [of ?b1])
qed

lemma map_of_load_all:
  "map_of (load_all xs acc) = map_of acc ++ map_of (rev xs)"
  unfolding load_all_def
  by (induction xs arbitrary: acc) (auto simp: update_conv' map_add_def fun_eq_iff split: option.splits)

lemma map_of_rev_distinct:
  "distinct (map fst xs) \<Longrightarrow> map_of (rev xs) = map_of xs"
proof (induction xs)
  case Nil
  then show ?case by simp
next
  case (Cons x xs)
  then have ih: "map_of (rev xs) = map_of xs" and nx: "fst x \<notin> fst ` set xs"
    by simp_all
  from nx have n: "map_of xs (fst x) = None"
    by (simp add: map_of_eq_None_iff)
  show ?case
  proof (rule ext)
    fix k
    show "map_of (rev (x # xs)) k = map_of (x # xs) k"
      using n by (cases x) (auto simp: ih map_add_def split: option.splits)
  qed
qed

text \<open>
  When no title holds a line feed, every digest has \<open>sha256.Size\<close> bytes and the whole
  file fits in the reader's buffer, loading the saved file gives the saved mapping back:
  the round trip breaks only beyond the buffer size.
\<close>

lemma small_cache_round_trip:
  assumes "\<forall>(key, sha256sum) \<in> set itemIdx.
             CHR 0x0A \<notin> set key \<and> length sha256sum = sha256_Size"
    and "distinct (map fst itemIdx)"
    and "length (cache_records itemIdx) \<le> defaultBufSize"
  shows "GetItemIndex (snd (SaveItemIndex itemIdx True)) = Inr (load_all itemIdx []) \<and>
         map_of (load_all itemIdx []) = map_of itemIdx"
proof -
  have "GetItemIndex (snd (SaveItemIndex itemIdx True))
      = GetItemIndex_loop \<lparr>buffered = [], unread = cache_records itemIdx\<rparr> []"
    by (simp add: GetItemIndex_def SaveItemIndex_def SaveItemIndex_loop_records)
  also have "\<dots> = GetItemIndex_loop \<lparr>buffered = cache_records itemIdx, unread = []\<rparr> []"
    by (rule GetItemIndex_loop_first_fill [OF assms(3)])
  also have "\<dots> = Inr (load_all itemIdx [])"
    by (rule GetItemIndex_loop_buffered [OF assms(1)])
  finally show ?thesis
    by (simp add: map_of_load_all map_of_rev_distinct [OF assms(2)])
qed

section \<open>The pass with its cache file\<close>

text \<open>
  \<open>NewHandler\<close> with an index path: the cache is loaded from the file \<open>item.idx\<close> (on an
  error of \<open>GetItemIndex\<close>, which is logged, it starts empty), the pass runs, and when
  it has run to the end the cache is saved (an error of \<open>SaveItemIndex\<close> is logged and
  the file stays as it was). The third component of the result is the file afterwards.
\<close>

definition load_itemIndex :: "bytes option \<Rightarrow> (string \<times> bytes) list" where
  "load_itemIndex file = (case GetItemIndex file of Inl err \<Rightarrow> [] | Inr itemIdx \<Rightarrow> itemIdx)"

definition NewHandler_pass ::
  "(bytes \<Rightarrow> bytes) \<Rightarrow> (idx_call list \<Rightarrow> string \<Rightarrow> Recipe \<Rightarrow> string option) \<Rightarrow>
   Recipe list \<Rightarrow> bytes option \<Rightarrow> bool \<Rightarrow> string option \<times> sync_state \<times> bytes option" where
  "NewHandler_pass H idx recipeSlice file can_create =
     (case synchronize H idx recipeSlice (load_itemIndex file) of
        (Some e, st) \<Rightarrow> (Some e, st, file)
      | (None, st) \<Rightarrow>
          (case SaveItemIndex (itemIndex st) can_create of
             (None, Some content) \<Rightarrow> (None, st, Some content)
           | _ \<Rightarrow> (None, st, file)))"

lemma NewHandler_pass_state:
  "fst (snd (NewHandler_pass H idx rs file can_create))
     = snd (synchronize H idx rs (load_itemIndex file))"
  by (auto simp: NewHandler_pass_def split: prod.splits option.splits)

definition long_recipe :: Recipe where
  "long_recipe = \<lparr>Title = long_title, Info = Map.empty, DocxPath = ''/r/long.docx'',
                   ScanPaths = [], Image = None\<rparr>"

lemma hasher_input_long: "hasher_input long_recipe = long_title"
  by (simp add: hasher_input_def long_recipe_def ValidCategoriesOrder_def WriteString_def)

lemma long_title_not_empty: "long_title \<noteq> []"
  by (simp add: long_title_def)

lemma first_line_cut:
  assumes "length d = sha256_Size"
  shows "ReadBytes CHR 0x0A \<lparr>buffered = [], unread = long_title @ CHR 0x0A # d\<rparr>
     = (long_title @ [CHR 0x0A], None, \<lparr>buffered = take 15 d, unread = drop 15 d\<rparr>)"
proof -
  let ?b0 = "\<lparr>buffered = [], unread = long_title @ CHR 0x0A # d\<rparr>"
  have f: "fill ?b0 = \<lparr>buffered = long_title @ CHR 0x0A # take 15 d, unread = drop 15 d\<rparr>"
    by (simp add: fill_def defaultBufSize_def long_title_def)
  have "ReadBytes_loop CHR 0x0A [] ?b0 = ReadBytes_loop CHR 0x0A [] (fill ?b0)"
    by (rule ReadBytes_loop_fill) (simp_all add: defaultBufSize_def)
  also have "\<dots> = (long_title @ [CHR 0x0A], None,
        \<lparr>buffered = take 15 d, unread = drop 15 d\<rparr>)"
    unfolding f
    by (subst ReadBytes_loop_found)
       (simp_all add: long_title_def takeWhile_replicate_delim dropWhile_replicate_delim)
  finally show ?thesis by (simp add: ReadBytes_def)
qed

lemma short_read_cut:
  assumes "length d = sha256_Size"
  shows "Read sha256_Size \<lparr>buffered = take 15 d, unread = drop 15 d\<rparr>
     = (take 15 d, None, \<lparr>buffered = [], unread = drop 15 d\<rparr>)"
proof -
  from assms have "take 15 d \<noteq> []"
    by (auto simp: sha256_Size_def)
  with assms show ?thesis
    by (simp add: Read_def sha256_Size_def)
qed

lemma second_line_cut:
  assumes "length d = sha256_Size" and "CHR 0x0A \<notin> set (drop 15 d)"
  shows "ReadBytes CHR 0x0A \<lparr>buffered = [], unread = drop 15 d\<rparr>
     = (drop 15 d, Some EOF, \<lparr>buffered = [], unread = []\<rparr>)"
proof -
  let ?b = "\<lparr>buffered = [], unread = drop 15 d\<rparr>"
  from assms(1) have ne: "drop 15 d \<noteq> []"
    by (simp add: sha256_Size_def)
  from assms(1) have f: "fill ?b = \<lparr>buffered = drop 15 d, unread = []\<rparr>"
    by (simp add: fill_def defaultBufSize_def sha256_Size_def)
  have "ReadBytes_loop CHR 0x0A [] ?b = ReadBytes_loop CHR 0x0A [] (fill ?b)"
    using ne by (intro ReadBytes_loop_fill) (simp_all add: defaultBufSize_def)
  also have "\<dots> = (drop 15 d, Some EOF, \<lparr>buffered = [], unread = []\<rparr>)"
    unfolding f using assms
    by (subst ReadBytes_loop_EOF) (simp_all add: defaultBufSize_def sha256_Size_def)
  finally show ?thesis by (simp add: ReadBytes_def)
qed

lemma load_long_title:
  assumes "length d = sha256_Size" and "CHR 0x0A \<notin> set (drop 15 d)"
  shows "GetItemIndex (Some (long_title @ CHR 0x0A # d))
     = Inr [(long_title, take 15 d @ replicate 17 CHR 0x00)]"
proof -
  from assms(1) have len: "sha256_Size - length (take 15 d) = 17"
    by (simp add: sha256_Size_def)
  have "GetItemIndex (Some (long_title @ CHR 0x0A # d))
      = GetItemIndex_loop \<lparr>buffered = [], unread = drop 15 d\<rparr>
          [(long_title, take 15 d @ replicate 17 CHR 0x00)]"
    unfolding GetItemIndex_def
    using assms(1)
    by (simp add: GetItemIndex_loop.simps [of "\<lparr>buffered = [], unread = long_title @ _\<rparr>"]
        first_line_cut [OF assms(1)] short_read_cut [OF assms(1)] len)
       (simp add: sha256_Size_def)
  also have "\<dots> = Inr [(long_title, take 15 d @ replicate 17 CHR 0x00)]"
    by (simp add: GetItemIndex_loop.simps [of "\<lparr>buffered = [], unread = drop 15 d\<rparr>"]
        second_line_cut [OF assms])
  finally show ?thesis .
qed

lemma first_pass_long:
  assumes "idx [] long_title long_recipe = None"
  shows "NewHandler_pass H idx [long_recipe] None True
     = (None,
        \<lparr>recipes = [long_title \<mapsto> long_recipe],
         itemIndex = [(long_title, H (hasher_input long_recipe))],
         calls = [IdxIndex long_title long_recipe], errors_logged = []\<rparr>,
        Some (long_title @ CHR 0x0A # H (hasher_input long_recipe)))"
proof -
  have t: "Title long_recipe = long_title"
    by (simp add: long_recipe_def)
  have l: "load_itemIndex None = []"
    by (simp add: load_itemIndex_def GetItemIndex_def)
  have s: "synchronize H idx [long_recipe] []
     = (None, \<lparr>recipes = [long_title \<mapsto> long_recipe],
         itemIndex = [(long_title, H (hasher_input long_recipe))],
         calls = [IdxIndex long_title long_recipe], errors_logged = []\<rparr>)"
    using assms long_title_not_empty
    by (simp add: synchronize_def start_state_def sync_recipe_def t recipe_sha256_def
        prune_stale_def Let_def)
  show ?thesis
    by (simp add: NewHandler_pass_def l s SaveItemIndex_def)
qed

lemma second_pass_long:
  assumes "length d = sha256_Size" and "CHR 0x0A \<notin> set (drop 15 d)"
    and "drop 15 d \<noteq> replicate 17 CHR 0x00" and "H (hasher_input long_recipe) = d"
  shows "calls (fst (snd (NewHandler_pass H idx [long_recipe]
                            (Some (long_title @ CHR 0x0A # d)) can_create)))
     = [IdxDelete long_title, IdxIndex long_title long_recipe]"
proof -
  have t: "Title long_recipe = long_title"
    by (simp add: long_recipe_def)
  have l: "load_itemIndex (Some (long_title @ CHR 0x0A # d))
      = [(long_title, take 15 d @ replicate 17 CHR 0x00)]"
    by (simp add: load_itemIndex_def load_long_title [OF assms(1,2)])
  have "drop 15 (take 15 d @ replicate 17 CHR 0x00) = replicate 17 CHR 0x00"
    using assms(1) by (simp add: sha256_Size_def)
  with assms(3) have ne: "take 15 d @ replicate 17 CHR 0x00 \<noteq> d"
    by metis
  have s: "calls (snd (synchronize H idx [long_recipe]
                         [(long_title, take 15 d @ replicate 17 CHR 0x00)]))
     = [IdxDelete long_title, IdxIndex long_title long_recipe]"
    using ne long_title_not_empty assms(4)
    by (simp add: synchronize_def start_state_def sync_recipe_def t recipe_sha256_def
        prune_stale_def Let_def split: option.split)
  show ?thesis
    using s by (simp add: NewHandler_pass_state l)
qed

text \<open>
  C2. The claim fails on the program at a corpus of one recipe whose title has 4080
  bytes, started without a cache file, for every hash function whose digest of that
  title has \<open>sha256.Size\<close> bytes, the last 17 of them not all zero and none a line feed
  (as SHA-256's has), and a search engine that accepts the recipe. The first pass indexes
  the recipe and saves the cache; the second pass over the same corpus loads that file,
  gets the digest cut after 15 bytes (the defect of C10), finds it different from the
  digest it computes, and deletes and indexes the recipe again.
\<close>

theorem second_pass_reindexes_after_reload:
  assumes "length (H (hasher_input long_recipe)) = sha256_Size"
    and "CHR 0x0A \<notin> set (drop 15 (H (hasher_input long_recipe)))"
    and "drop 15 (H (hasher_input long_recipe)) \<noteq> replicate 17 CHR 0x00"
    and "idx [] long_title long_recipe = None"
  shows "NewHandler_pass H idx [long_recipe] None True
           = (None,
              \<lparr>recipes = [long_title \<mapsto> long_recipe],
               itemIndex = [(long_title, H (hasher_input long_recipe))],
               calls = [IdxIndex long_title long_recipe], errors_logged = []\<rparr>,
              Some (long_title @ CHR 0x0A # H (hasher_input long_recipe))) \<and>
         calls (fst (snd (NewHandler_pass H idx' [long_recipe]
                  (Some (long_title @ CHR 0x0A # H (hasher_input long_recipe))) True)))
           = [IdxDelete long_title, IdxIndex long_title long_recipe]"
  using first_pass_long [where H = H and idx = idx, OF assms(4)]
    second_pass_long [where H = H and idx = idx' and can_create = True, OF assms(1-3) refl]
  by simp

text \<open>
  The SHA-256 digest of the 4080 bytes of \<open>long_title\<close>, and a stand-in for the hash
  function that returns it (the two passes hash nothing else).
\<close>

definition sha256_of_long_title :: bytes where
  "sha256_of_long_title =
     [CHR 0xBD, CHR 0x60, CHR 0xCB, CHR 0xD4, CHR 0x9A, CHR 0xA4, CHR 0xE7, CHR 0xEF,
      CHR 0x4A, CHR 0xBC, CHR 0xFB, CHR 0xEF, CHR 0x13, CHR 0x9F, CHR 0x17, CHR 0xD8,
      CHR 0x89, CHR 0x0E, CHR 0xBE, CHR 0xAD, CHR 0x04, CHR 0x28, CHR 0xA7, CHR 0xCF,
      CHR 0x56, CHR 0x18, CHR 0x9F, CHR 0xFD, CHR 0x08, CHR 0xDC, CHR 0x67, CHR 0x2B]"

definition sha256_at_long_title :: "bytes \<Rightarrow> bytes" where
  "sha256_at_long_title b = sha256_of_long_title"

theorem second_pass_reindexes_after_reload_witness:
  "length (sha256_at_long_title (hasher_input long_recipe)) = sha256_Size \<and>
   CHR 0x0A \<notin> set (drop 15 (sha256_at_long_title (hasher_input long_recipe))) \<and>
   drop 15 (sha256_at_long_title (hasher_input long_recipe)) \<noteq> replicate 17 CHR 0x00 \<and>
   accept_all [] long_title long_recipe = None \<and>
   NewHandler_pass sha256_at_long_title accept_all [long_recipe] None True
     = (None,
        \<lparr>recipes = [long_title \<mapsto> long_recipe],
         itemIndex = [(long_title, sha256_of_long_title)],
         calls = [IdxIndex long_title long_recipe], errors_logged = []\<rparr>,
        Some (long_title @ CHR 0x0A # sha256_of_long_title)) \<and>
   calls (fst (snd (NewHandler_pass sha256_at_long_title accept_all [long_recipe]
            (Some (long_title @ CHR 0x0A # sha256_of_long_title)) True)))
     = [IdxDelete long_title, IdxIndex long_title long_recipe]"
proof -
  have 1: "length (sha256_at_long_title (hasher_input long_recipe)) = sha256_Size"
    by (simp add: sha256_at_long_title_def sha256_of_long_title_def sha256_Size_def)
  have 2: "CHR 0x0A \<notin> set (drop 15 (sha256_at_long_title (hasher_input long_recipe)))"
    by (simp add: sha256_at_long_title_def sha256_of_long_title_def)
  have "drop 15 sha256_of_long_title \<noteq> replicate 17 CHR 0x00"
    by code_simp
  then have 3: "drop 15 (sha256_at_long_title (hasher_input long_recipe)) \<noteq> replicate 17 CHR 0x00"
    by (simp add: sha256_at_long_title_def)
  have 4: "accept_all [] long_title long_recipe = None"
    by (simp add: accept_all_def)
  from second_pass_reindexes_after_reload
         [where H = sha256_at_long_title and idx = accept_all and idx' = accept_all,
          OF 1 2 3 4] 1 2 3 4
  show ?thesis by (simp add: sha256_at_long_title_def)
qed

end
